theory Spec2Isabelle
  imports Main
begin

unbundle bit_operations_syntax

section \<open>The JavaScript values and built-ins the engine relies on\<close>

text \<open>
  A JavaScript string is modelled as a \<open>string\<close>: a list of code units below 256.
  A JavaScript Number that holds an integer, a NaN or an infinity is a \<open>jsnum\<close>; the
  engine never produces a fraction. Negative zero behaves like zero everywhere in this
  code (\<open>===\<close>, \<open>toString\<close>, the bitwise operators, \<open>BigInt\<close>) and is \<open>Num 0\<close>.
\<close>

datatype jsnum = Num int | NaN | PosInf | NegInf

datatype js_error = Error string | RangeError

text \<open>
  What the host decides and the source does not: the text \<open>toLocaleString\<close> gives for a
  number, and the message of the RangeError that \<open>BigInt\<close> raises.
\<close>

record host =
  toLocaleString :: "int \<Rightarrow> string"
  rangeErrorMessage :: string

definition errorMessage :: "host \<Rightarrow> js_error \<Rightarrow> string" where
  "errorMessage h e = (case e of Error m \<Rightarrow> m | RangeError \<Rightarrow> rangeErrorMessage h)"

subsection \<open>Numbers\<close>

function bitLength :: "int \<Rightarrow> nat" where
  "bitLength n = (if n \<le> 0 then 0 else Suc (bitLength (n div 2)))"
  by pat_completeness auto
termination
  by (relation "measure nat") auto

declare bitLength.simps [simp del]

text \<open>
  The Number for a mathematical integer: exact below \<open>2^53\<close>, otherwise rounded to 53
  significant bits, ties to even, and an infinity from \<open>2^1024\<close> on.
\<close>

definition toNumber :: "int \<Rightarrow> jsnum" where
  "toNumber x =
     (let a = \<bar>x\<bar> in
      if a < 2 ^ 53 then Num x
      else
        let e = bitLength a - 53;
            q = a div 2 ^ e;
            r = a mod 2 ^ e;
            half = 2 ^ (e - 1);
            q' = (if half < r \<or> (r = half \<and> odd q) then q + 1 else q);
            v = q' * 2 ^ e
        in if 2 ^ 1024 \<le> v then (if x < 0 then NegInf else PosInf)
           else Num (if x < 0 then - v else v))"

definition isNaN :: "jsnum \<Rightarrow> bool" where
  "isNaN v = (v = NaN)"

text \<open>\<open>v > k\<close>, \<open>v >= k\<close> and \<open>v <= k\<close> for a Number \<open>v\<close> and an integer literal \<open>k\<close>.\<close>

definition numGreater :: "jsnum \<Rightarrow> int \<Rightarrow> bool" where
  "numGreater v k = (case v of Num x \<Rightarrow> k < x | PosInf \<Rightarrow> True | _ \<Rightarrow> False)"

definition numGeq :: "jsnum \<Rightarrow> int \<Rightarrow> bool" where
  "numGeq v k = (case v of Num x \<Rightarrow> k \<le> x | PosInf \<Rightarrow> True | _ \<Rightarrow> False)"

definition numLeq :: "jsnum \<Rightarrow> int \<Rightarrow> bool" where
  "numLeq v k = (case v of Num x \<Rightarrow> x \<le> k | NegInf \<Rightarrow> True | _ \<Rightarrow> False)"

text \<open>
  The bitwise operators work on ToInt32 of their operands: NaN and the infinities are 0,
  an integer is taken modulo \<open>2^32\<close> into \<open>[-2^31, 2^31)\<close>. A shift count is taken
  modulo 32.
\<close>

definition intOf :: "jsnum \<Rightarrow> int" where
  "intOf v = (case v of Num x \<Rightarrow> x | _ \<Rightarrow> 0)"

definition toInt32 :: "int \<Rightarrow> int" where
  "toInt32 x = (x + 2 ^ 31) mod 2 ^ 32 - 2 ^ 31"

definition js_and :: "int \<Rightarrow> int \<Rightarrow> int" where
  "js_and a b = toInt32 a AND toInt32 b"

definition js_or :: "int \<Rightarrow> int \<Rightarrow> int" where
  "js_or a b = toInt32 a OR toInt32 b"

definition js_xor :: "int \<Rightarrow> int \<Rightarrow> int" where
  "js_xor a b = toInt32 a XOR toInt32 b"

definition js_not :: "int \<Rightarrow> int" where
  "js_not a = NOT (toInt32 a)"

definition js_shl :: "int \<Rightarrow> int \<Rightarrow> int" where
  "js_shl a n = toInt32 (push_bit (nat (n mod 32)) (toInt32 a))"

definition js_sar :: "int \<Rightarrow> int \<Rightarrow> int" where
  "js_sar a n = drop_bit (nat (n mod 32)) (toInt32 a)"

subsection \<open>Digits and number rendering\<close>

definition digitVal :: "char \<Rightarrow> int option" where
  "digitVal c =
     (let n = (of_char c :: int) in
      if 48 \<le> n \<and> n \<le> 57 then Some (n - 48)
      else if 97 \<le> n \<and> n \<le> 122 then Some (n - 87)
      else if 65 \<le> n \<and> n \<le> 90 then Some (n - 55)
      else None)"

definition isDigitIn :: "int \<Rightarrow> char \<Rightarrow> bool" where
  "isDigitIn radix c = (case digitVal c of Some v \<Rightarrow> v < radix | None \<Rightarrow> False)"

definition digitsValue :: "int \<Rightarrow> string \<Rightarrow> int" where
  "digitsValue radix z =
     foldl (\<lambda>a c. a * radix + (case digitVal c of Some v \<Rightarrow> v | None \<Rightarrow> 0)) 0 z"

definition digitChar :: "int \<Rightarrow> char" where
  "digitChar d = (if d < 10 then char_of (48 + d) else char_of (87 + d))"

text \<open>The digits of a non-negative integer in a radix from 2 to 36, lowercase.\<close>

function toRadix :: "int \<Rightarrow> int \<Rightarrow> string" where
  "toRadix r n =
     (if r < 2 \<or> n < r then [digitChar n]
      else toRadix r (n div r) @ [digitChar (n mod r)])"
  by pat_completeness auto
termination
  by (relation "measure (\<lambda>(r, n). nat n)") (auto intro: int_div_less_self)

declare toRadix.simps [simp del]

text \<open>\<open>BigInt.prototype.toString()\<close>, and \<open>String(n)\<close> of a small integer.\<close>

definition decString :: "int \<Rightarrow> string" where
  "decString x = (if x < 0 then CHR ''-'' # toRadix 10 (- x) else toRadix 10 x)"

text \<open>\<open>Number.prototype.toString(radix)\<close> of an integer Number, a NaN or an infinity.\<close>

definition numToString :: "int \<Rightarrow> jsnum \<Rightarrow> string" where
  "numToString radix v =
     (case v of
        Num x \<Rightarrow> (if x < 0 then CHR ''-'' # toRadix radix (- x)
                  else toRadix radix x)
      | NaN \<Rightarrow> ''NaN''
      | PosInf \<Rightarrow> ''Infinity''
      | NegInf \<Rightarrow> ''-Infinity'')"

subsection \<open>Strings\<close>

text \<open>White space and line terminators among the code units below 256.\<close>

definition isStrWhiteSpace :: "char \<Rightarrow> bool" where
  "isStrWhiteSpace c = ((of_char c :: int) \<in> set [9, 10, 11, 12, 13, 32, 160])"

definition trim_js :: "string \<Rightarrow> string" where
  "trim_js s = rev (dropWhile isStrWhiteSpace (rev (dropWhile isStrWhiteSpace s)))"

definition padStart :: "nat \<Rightarrow> char \<Rightarrow> string \<Rightarrow> string" where
  "padStart n c s = replicate (n - length s) c @ s"

fun join_js :: "string \<Rightarrow> string list \<Rightarrow> string" where
  "join_js sep [] = []"
| "join_js sep [x] = x"
| "join_js sep (x # y # ys) = x @ sep @ join_js sep (y # ys)"

text \<open>
  \<open>String.prototype.split\<close> with a non-empty separator: the occurrences are found from
  the left and do not overlap; \<open>acc\<close> is the piece being collected.
\<close>

function split_from :: "string \<Rightarrow> string \<Rightarrow> string \<Rightarrow> string list" where
  "split_from sep acc [] = [acc]"
| "split_from sep acc (c # cs) =
     (if sep \<noteq> [] \<and> take (length sep) (c # cs) = sep
      then acc # split_from sep [] (drop (length sep) (c # cs))
      else split_from sep (acc @ [c]) cs)"
  by pat_completeness auto
termination
  by (relation "measure (\<lambda>(sep, acc, s). length s)") auto

definition split_js :: "string \<Rightarrow> string \<Rightarrow> string list" where
  "split_js sep s = split_from sep [] s"

text \<open>
  \<open>Array.prototype.slice(start, end)\<close>: a negative bound counts from the end, and both
  are clamped to the array.
\<close>

definition slice_js :: "'a list \<Rightarrow> int \<Rightarrow> int \<Rightarrow> 'a list" where
  "slice_js xs a b =
     (let n = int (length xs);
          k = (if a < 0 then max (n + a) 0 else min a n);
          e = (if b < 0 then max (n + b) 0 else min b n)
      in take (nat (e - k)) (drop (nat k) xs))"

definition sliceFrom_js :: "'a list \<Rightarrow> int \<Rightarrow> 'a list" where
  "sliceFrom_js xs a = slice_js xs a (int (length xs))"

text \<open>
  \<open>parseInt(string, radix)\<close> for radix 10 or 16: leading white space is skipped, one
  sign is read, with radix 16 a \<open>0x\<close> or \<open>0X\<close> is skipped, and the longest run of digits
  of the radix is the value; whatever follows is ignored. No digit gives NaN.
\<close>

definition parseInt :: "string \<Rightarrow> int \<Rightarrow> jsnum" where
  "parseInt str radix =
     (let s = dropWhile isStrWhiteSpace str;
          neg = (s \<noteq> [] \<and> hd s = CHR ''-'');
          s1 = (if s \<noteq> [] \<and> (hd s = CHR ''-'' \<or> hd s = CHR ''+'') then tl s else s);
          s2 = (if radix = 16 \<and> (take 2 s1 = ''0x'' \<or> take 2 s1 = ''0X'') then drop 2 s1 else s1);
          z = takeWhile (isDigitIn radix) s2
      in if z = [] then NaN
         else toNumber ((if neg then - 1 else 1) * digitsValue radix z))"

text \<open>
  \<open>Number(string)\<close> on a non-empty string of decimal digits, the only strings the code
  hands to it (the regular expression before it admits nothing else).
\<close>

definition isDecimalDigits :: "string \<Rightarrow> bool" where
  "isDecimalDigits s = (s \<noteq> [] \<and> list_all (isDigitIn 10) s)"

definition Number_js :: "string \<Rightarrow> jsnum" where
  "Number_js s = (if isDecimalDigits s then toNumber (digitsValue 10 s) else NaN)"

text \<open>\<open>btoa\<close> of the string whose code units are the given bytes.\<close>

definition base64Char :: "int \<Rightarrow> char" where
  "base64Char n =
     (if n < 26 then char_of (65 + n)
      else if n < 52 then char_of (71 + n)
      else if n < 62 then char_of (n - 4)
      else if n = 62 then CHR ''+'' else CHR ''/'')"

fun btoa :: "int list \<Rightarrow> string" where
  "btoa [] = []"
| "btoa [a] = [base64Char (a div 4), base64Char ((a mod 4) * 16), CHR ''='', CHR ''='']"
| "btoa [a, b] =
     [base64Char (a div 4), base64Char ((a mod 4) * 16 + b div 16),
      base64Char ((b mod 16) * 4), CHR ''='']"
| "btoa (a # b # c # r) =
     [base64Char (a div 4), base64Char ((a mod 4) * 16 + b div 16),
      base64Char ((b mod 16) * 4 + c div 64), base64Char (c mod 64)] @ btoa r"

text \<open>
  Reading an array element as a number: past the end the element is \<open>undefined\<close>, which
  is NaN as a number and 0 under the bitwise operators. Writing past the end extends the
  array.
\<close>

definition js_nth :: "jsnum list \<Rightarrow> int \<Rightarrow> jsnum" where
  "js_nth xs i = (if 0 \<le> i \<and> nat i < length xs then xs ! nat i else NaN)"

definition js_set :: "jsnum list \<Rightarrow> int \<Rightarrow> jsnum \<Rightarrow> jsnum list" where
  "js_set xs i v =
     (if i < 0 then xs
      else if nat i < length xs then xs[nat i := v]
      else xs @ replicate (nat i - length xs) NaN @ [v])"

definition numLess :: "jsnum \<Rightarrow> int \<Rightarrow> bool" where
  "numLess v k = (case v of Num x \<Rightarrow> x < k | NegInf \<Rightarrow> True | _ \<Rightarrow> False)"

section \<open>Data model (types/ipv6.ts)\<close>

datatype AddressType =
    GlobalUnicast | LinkLocal | UniqueLocal | Multicast | Anycast | Loopback | Unspecified
  | IPv4Mapped | IPv4Compatible | Reserved | Documentation | Teredo | SixToFour

datatype AddressScope =
    ScopeInterfaceLocal | ScopeLinkLocal | ScopeAdminLocal | ScopeSiteLocal
  | ScopeOrganizationLocal | ScopeGlobal

record RFCCompliance =
  rfc :: string
  title :: string
  compliant :: bool
  rfcNotes :: "string option"

record IPv6Address =
  input :: string
  isValid :: bool
  error :: "string option"
  expanded :: string
  compressed :: string
  binary :: string
  hex :: string
  integer :: string
  base64 :: string
  networkAddress :: string
  prefixLength :: int
  firstAddress :: string
  lastAddress :: string
  totalHosts :: string
  totalSubnets :: string
  reverseDNS :: string
  addressType :: AddressType
  scope :: AddressScope
  isIPv4MappedFlag :: bool
  isIPv4CompatibleFlag :: bool
  isEUI64Flag :: bool
  isSLAACCompatible :: bool
  rfcCompliance :: "RFCCompliance list"

record ParsedIPv6 =
  hextets :: "jsnum list"
  parsedPrefixLength :: int
  parsedIsValid :: bool
  parsedError :: "string option"

record SubnetInfo =
  network :: string
  subnetFirstAddress :: string
  subnetLastAddress :: string
  broadcastAddress :: string
  subnetTotalHosts :: string

record SubnetPlan =
  originalPrefix :: string
  targetPrefixLength :: int
  subnets :: "SubnetInfo list"
  planTotalSubnets :: int

section \<open>The address codec (utils/ipv6Parser.ts)\<close>

subsection \<open>parseIPv6String\<close>

definition invalidParsed :: "string \<Rightarrow> ParsedIPv6" where
  "invalidParsed msg =
     \<lparr>hextets = [], parsedPrefixLength = 0, parsedIsValid = False, parsedError = Some msg\<rparr>"

definition validParsed :: "jsnum list \<Rightarrow> int \<Rightarrow> ParsedIPv6" where
  "validParsed hs prefixLen =
     \<lparr>hextets = hs, parsedPrefixLength = prefixLen, parsedIsValid = True, parsedError = None\<rparr>"

definition isLineTerminator :: "char \<Rightarrow> bool" where
  "isLineTerminator c = ((of_char c :: int) \<in> set [10, 13])"

text \<open>
  \<open>address.match(/^(.+)\/(\d+)$/)\<close>: the digits run to the end of the string, so the
  slash is the last one; before it stands at least one character and no line terminator.
  The result is the pair of the two groups.
\<close>

definition prefixMatch :: "string \<Rightarrow> (string \<times> string) option" where
  "prefixMatch s =
     (if CHR ''/'' \<in> set s then
        (let d = rev (takeWhile (\<lambda>c. c \<noteq> CHR ''/'') (rev s));
             a = rev (tl (dropWhile (\<lambda>c. c \<noteq> CHR ''/'') (rev s)))
         in if a \<noteq> [] \<and> \<not> list_ex isLineTerminator a \<and> isDecimalDigits d
            then Some (a, d) else None)
      else None)"

text \<open>
  \<open>address.match(/^::ffff:(\d+\.\d+\.\d+\.\d+)$/i)\<close>: the result is the dotted quad.
\<close>

definition lowerF :: "char \<Rightarrow> char" where
  "lowerF c = (if c = CHR ''F'' then CHR ''f'' else c)"

definition ipv4MappedMatch :: "string \<Rightarrow> string option" where
  "ipv4MappedMatch s =
     (let q = drop 7 s; ps = split_js ''.'' q
      in if map lowerF (take 7 s) = ''::ffff:'' \<and> length ps = 4 \<and> list_all isDecimalDigits ps
         then Some q else None)"

text \<open>
  The two loops that convert the groups: an empty group is skipped, a group whose
  \<open>parseInt\<close> is NaN or above \<open>0xffff\<close> ends the parse (\<open>None\<close>), any other value is
  pushed.
\<close>

fun pushParts :: "string list \<Rightarrow> jsnum list \<Rightarrow> jsnum list option" where
  "pushParts [] hs = Some hs"
| "pushParts (part # ps) hs =
     (if part = [] then pushParts ps hs
      else (let hexValue = parseInt part 16
            in if isNaN hexValue \<or> numGreater hexValue 0xffff then None
               else pushParts ps (hs @ [hexValue])))"

definition parseGroups :: "string \<Rightarrow> int \<Rightarrow> ParsedIPv6" where
  "parseGroups address prefixLen =
     (let parts = split_js ''::'' address in
      if 2 < length parts then invalidParsed ''Multiple :: not allowed''
      else
        let leftParts =
              (if length parts = 2
               then (if parts ! 0 \<noteq> [] then split_js '':'' (parts ! 0) else [])
               else split_js '':'' (hd parts));
            rightParts =
              (if length parts = 2
               then (if parts ! 1 \<noteq> [] then split_js '':'' (parts ! 1) else [])
               else [])
        in case pushParts leftParts [] of
             None \<Rightarrow> invalidParsed ''Invalid hexadecimal value''
           | Some hs1 \<Rightarrow>
               let zerosNeeded = 8 - int (length (filter (\<lambda>p. p \<noteq> []) leftParts))
                                   - int (length (filter (\<lambda>p. p \<noteq> []) rightParts));
                   hs2 = (if length parts = 2 then hs1 @ replicate (nat zerosNeeded) (Num 0)
                          else hs1)
               in case pushParts rightParts hs2 of
                    None \<Rightarrow> invalidParsed ''Invalid hexadecimal value''
                  | Some hs3 \<Rightarrow>
                      if length hs3 \<noteq> 8 then invalidParsed ''Invalid IPv6 address format''
                      else validParsed hs3 prefixLen)"

definition parseAddress :: "string \<Rightarrow> int \<Rightarrow> ParsedIPv6" where
  "parseAddress address prefixLen =
     (if address = ''::'' then validParsed (replicate 8 (Num 0)) prefixLen
      else case ipv4MappedMatch address of
             Some q \<Rightarrow>
               (let ipv4Parts = map Number_js (split_js ''.'' q)
                in if list_all (\<lambda>part. numGeq part 0 \<and> numLeq part 255) ipv4Parts
                   then validParsed
                          [Num 0, Num 0, Num 0, Num 0, Num 0, Num 0xffff,
                           Num (js_or (js_shl (intOf (js_nth ipv4Parts 0)) 8)
                                      (intOf (js_nth ipv4Parts 1))),
                           Num (js_or (js_shl (intOf (js_nth ipv4Parts 2)) 8)
                                      (intOf (js_nth ipv4Parts 3)))]
                          prefixLen
                   else parseGroups address prefixLen)
           | None \<Rightarrow> parseGroups address prefixLen)"

definition parseIPv6String :: "string \<Rightarrow> ParsedIPv6" where
  "parseIPv6String inp =
     (case prefixMatch inp of
        Some (a, d) \<Rightarrow>
          (let prefixLen = parseInt d 10
           in if numLess prefixLen 0 \<or> numGreater prefixLen 128
              then invalidParsed ''Invalid prefix length''
              else parseAddress a (intOf prefixLen))
      | None \<Rightarrow> parseAddress inp 128)"

subsection \<open>Renderings\<close>

definition toExpanded :: "jsnum list \<Rightarrow> string" where
  "toExpanded hs = join_js '':'' (map (\<lambda>h. padStart 4 (CHR ''0'') (numToString 16 h)) hs)"

record ZeroSequence =
  seqStart :: int
  seqLength :: int

text \<open>
  The loop over \<open>parts\<close> that collects the runs of \<open>0000\<close> groups: \<open>i\<close> is the index of
  the group at the head of the list, the state is \<open>zeroSequences\<close> and
  \<open>currentSequence\<close>.
\<close>

fun scanZeros ::
  "string list \<Rightarrow> int \<Rightarrow> ZeroSequence list \<times> ZeroSequence \<Rightarrow> ZeroSequence list \<times> ZeroSequence"
where
  "scanZeros [] i st = st"
| "scanZeros (p # ps) i (zs, cur) =
     (if p = ''0000'' then
        (if seqStart cur = - 1
         then scanZeros ps (i + 1) (zs, \<lparr>seqStart = i, seqLength = 1\<rparr>)
         else scanZeros ps (i + 1) (zs, cur\<lparr>seqLength := seqLength cur + 1\<rparr>))
      else
        (if seqStart cur \<noteq> - 1
         then scanZeros ps (i + 1) (zs @ [cur], \<lparr>seqStart = - 1, seqLength = 0\<rparr>)
         else scanZeros ps (i + 1) (zs, cur)))"

definition findZeroSequences :: "string list \<Rightarrow> ZeroSequence list" where
  "findZeroSequences parts =
     (case scanZeros parts 0 ([], \<lparr>seqStart = - 1, seqLength = 0\<rparr>) of
        (zs, cur) \<Rightarrow> if seqStart cur \<noteq> - 1 then zs @ [cur] else zs)"

definition longestSequence :: "ZeroSequence list \<Rightarrow> ZeroSequence" where
  "longestSequence zs =
     foldl (\<lambda>longest current. if seqLength longest < seqLength current then current else longest)
       \<lparr>seqStart = - 1, seqLength = 0\<rparr> zs"

text \<open>\<open>parseInt(p, 16).toString(16)\<close>, applied to a group of the expanded form.\<close>

definition stripLeadingZeros :: "string \<Rightarrow> string" where
  "stripLeadingZeros p = numToString 16 (parseInt p 16)"

definition toCompressed :: "jsnum list \<Rightarrow> string" where
  "toCompressed hs =
     (let parts = split_js '':'' (toExpanded hs);
          longest = longestSequence (findZeroSequences parts)
      in if 1 < seqLength longest then
           (let beforeCompression =
                  map stripLeadingZeros (slice_js parts 0 (seqStart longest));
                afterCompression =
                  map stripLeadingZeros
                    (sliceFrom_js parts (seqStart longest + seqLength longest))
            in if seqStart longest = 0 then ''::'' @ join_js '':'' afterCompression
               else if seqStart longest + seqLength longest = 8
               then join_js '':'' beforeCompression @ ''::''
               else join_js '':'' beforeCompression @ ''::'' @ join_js '':'' afterCompression)
         else join_js '':'' (map stripLeadingZeros parts))"

definition toBinary :: "jsnum list \<Rightarrow> string" where
  "toBinary hs = join_js '' '' (map (\<lambda>h. padStart 16 (CHR ''0'') (numToString 2 h)) hs)"

definition toHex :: "jsnum list \<Rightarrow> string" where
  "toHex hs = ''0x'' @ join_js [] (map (\<lambda>h. padStart 4 (CHR ''0'') (numToString 16 h)) hs)"

text \<open>\<open>BigInt(v)\<close> raises a RangeError unless the Number is an integer.\<close>

definition BigInt_js :: "jsnum \<Rightarrow> js_error + int" where
  "BigInt_js v = (case v of Num x \<Rightarrow> Inr x | _ \<Rightarrow> Inl RangeError)"

fun toIntegerLoop :: "jsnum list \<Rightarrow> int \<Rightarrow> js_error + int" where
  "toIntegerLoop [] result = Inr result"
| "toIntegerLoop (h # hs) result =
     (case BigInt_js h of
        Inl e \<Rightarrow> Inl e
      | Inr b \<Rightarrow> toIntegerLoop hs (push_bit 16 result OR b))"

definition toInteger :: "jsnum list \<Rightarrow> js_error + string" where
  "toInteger hs = (case toIntegerLoop hs 0 of Inl e \<Rightarrow> Inl e | Inr r \<Rightarrow> Inr (decString r))"

definition toBase64 :: "jsnum list \<Rightarrow> string" where
  "toBase64 hs =
     btoa (concat (map (\<lambda>h. [js_and (js_sar (intOf h) 8) 0xff, js_and (intOf h) 0xff]) hs))"

definition toReverseDNS :: "jsnum list \<Rightarrow> string" where
  "toReverseDNS hs =
     join_js ''.'' (rev (map (\<lambda>c. [c]) (filter (\<lambda>c. c \<noteq> CHR '':'') (toExpanded hs))))
       @ ''.ip6.arpa''"

subsection \<open>Network and range\<close>

definition getNetworkAddress :: "jsnum list \<Rightarrow> int \<Rightarrow> jsnum list" where
  "getNetworkAddress hs prefixLen =
     (let fullHextets = prefixLen div 16;
          remainingBits = prefixLen mod 16
      in foldl (\<lambda>networkHextets i.
                  if i = fullHextets \<and> 0 < remainingBits then
                    (let mask = js_and (js_shl 0xffff (16 - remainingBits)) 0xffff
                     in js_set networkHextets i (Num (js_and (intOf (js_nth networkHextets i)) mask)))
                  else js_set networkHextets i (Num 0))
           hs [fullHextets..7])"

text \<open>
  The loop of \<open>getAddressRange\<close> that sets the host bits of the network address.
\<close>

definition lastHextetsOf :: "jsnum list \<Rightarrow> int \<Rightarrow> jsnum list" where
  "lastHextetsOf networkHextets prefixLen =
     (let fullHextets = prefixLen div 16;
          remainingBits = prefixLen mod 16
      in foldl (\<lambda>lastHextets i.
                  if i = fullHextets \<and> 0 < remainingBits then
                    (let hostMask = js_shl 1 (16 - remainingBits) - 1
                     in js_set lastHextets i (Num (js_or (intOf (js_nth lastHextets i)) hostMask)))
                  else js_set lastHextets i (Num 0xffff))
           networkHextets [fullHextets..7])"

definition getAddressRange :: "jsnum list \<Rightarrow> int \<Rightarrow> string \<times> string" where
  "getAddressRange hs prefixLen =
     (let networkHextets = getNetworkAddress hs prefixLen;
          lastHextets = lastHextetsOf networkHextets prefixLen
      in (toCompressed networkHextets, toCompressed lastHextets))"

definition calculateTotalHosts :: "host \<Rightarrow> int \<Rightarrow> string" where
  "calculateTotalHosts h prefixLen =
     (let hostBits = 128 - prefixLen
      in if 64 \<le> hostBits
         then ''2^'' @ decString hostBits @ '' ('' @ decString (2 ^ nat hostBits) @ '')''
         else toLocaleString h (2 ^ nat hostBits))"

definition calculateTotalSubnets :: "host \<Rightarrow> int \<Rightarrow> string" where
  "calculateTotalSubnets h prefixLen =
     (if 64 \<le> prefixLen then
        (let subnetBits = prefixLen - 48
         in if subnetBits \<le> 0 then ''1'' else toLocaleString h (2 ^ nat subnetBits))
      else ''N/A (prefix too short)'')"

subsection \<open>Classification, scope, flags\<close>

definition getAddressType :: "jsnum list \<Rightarrow> AddressType" where
  "getAddressType hs =
     (if list_all (\<lambda>h. h = Num 0) hs then Unspecified
      else if list_all (\<lambda>h. h = Num 0) (slice_js hs 0 7) \<and> js_nth hs 7 = Num 1 then Loopback
      else if js_nth hs 0 = Num 0xfe80 then LinkLocal
      else if js_and (intOf (js_nth hs 0)) 0xfe00 = 0xfc00 then UniqueLocal
      else if js_and (intOf (js_nth hs 0)) 0xff00 = 0xff00 then Multicast
      else if list_all (\<lambda>h. h = Num 0) (slice_js hs 0 5) \<and> js_nth hs 5 = Num 0xffff
           then IPv4Mapped
      else if list_all (\<lambda>h. h = Num 0) (slice_js hs 0 6) then IPv4Compatible
      else if js_nth hs 0 = Num 0x2001 \<and> js_nth hs 1 = Num 0x0000 then Teredo
      else if js_nth hs 0 = Num 0x2002 then SixToFour
      else if js_nth hs 0 = Num 0x2001 \<and> js_and (intOf (js_nth hs 1)) 0xfff8 = 0x0db8
           then Documentation
      else if js_and (intOf (js_nth hs 0)) 0xe000 = 0x2000 then GlobalUnicast
      else Reserved)"

definition getAddressScope :: "jsnum list \<Rightarrow> AddressType \<Rightarrow> AddressScope" where
  "getAddressScope hs t =
     (case t of
        Loopback \<Rightarrow> ScopeInterfaceLocal
      | Unspecified \<Rightarrow> ScopeInterfaceLocal
      | LinkLocal \<Rightarrow> ScopeLinkLocal
      | UniqueLocal \<Rightarrow> ScopeOrganizationLocal
      | GlobalUnicast \<Rightarrow> ScopeGlobal
      | IPv4Mapped \<Rightarrow> ScopeGlobal
      | Multicast \<Rightarrow>
          (let scopeField = js_and (intOf (js_nth hs 0)) 0x000f
           in if scopeField = 1 then ScopeInterfaceLocal
              else if scopeField = 2 then ScopeLinkLocal
              else if scopeField = 4 then ScopeAdminLocal
              else if scopeField = 5 then ScopeSiteLocal
              else if scopeField = 8 then ScopeOrganizationLocal
              else if scopeField = 14 then ScopeGlobal
              else ScopeGlobal)
      | _ \<Rightarrow> ScopeGlobal)"

definition isIPv4Mapped :: "jsnum list \<Rightarrow> bool" where
  "isIPv4Mapped hs = (list_all (\<lambda>h. h = Num 0) (slice_js hs 0 5) \<and> js_nth hs 5 = Num 0xffff)"

definition isIPv4Compatible :: "jsnum list \<Rightarrow> bool" where
  "isIPv4Compatible hs =
     (list_all (\<lambda>h. h = Num 0) (slice_js hs 0 6)
      \<and> (js_nth hs 6 \<noteq> Num 0 \<or> js_nth hs 7 \<noteq> Num 0)
      \<and> js_nth hs 7 \<noteq> Num 1)"

definition isEUI64 :: "jsnum list \<Rightarrow> js_error + bool" where
  "isEUI64 hs =
     (case BigInt_js (js_nth hs 4) of Inl e \<Rightarrow> Inl e | Inr b4 \<Rightarrow>
      case BigInt_js (js_nth hs 5) of Inl e \<Rightarrow> Inl e | Inr b5 \<Rightarrow>
      case BigInt_js (js_nth hs 6) of Inl e \<Rightarrow> Inl e | Inr b6 \<Rightarrow>
      case BigInt_js (js_nth hs 7) of Inl e \<Rightarrow> Inl e | Inr b7 \<Rightarrow>
        (let interfaceId = push_bit 48 b4 OR push_bit 32 b5 OR push_bit 16 b6 OR b7;
             middle16 = drop_bit 24 interfaceId AND 0xffff
         in Inr (middle16 = 0xfffe)))"

definition getRFCCompliance :: "jsnum list \<Rightarrow> AddressType \<Rightarrow> RFCCompliance list" where
  "getRFCCompliance hs t =
     [\<lparr>rfc = ''RFC 4291'', title = ''IP Version 6 Addressing Architecture'',
       compliant = True, rfcNotes = Some ''Valid IPv6 address format''\<rparr>,
      \<lparr>rfc = ''RFC 5952'', title = ''A Recommendation for IPv6 Address Text Representation'',
       compliant = True, rfcNotes = Some ''Follows canonical text representation rules''\<rparr>]
     @ (if t = UniqueLocal
        then [\<lparr>rfc = ''RFC 4193'', title = ''Unique Local IPv6 Unicast Addresses'',
               compliant = True, rfcNotes = Some ''Valid ULA format (fc00::/7)''\<rparr>]
        else [])
     @ (if t = LinkLocal
        then [\<lparr>rfc = ''RFC 4007'', title = ''IPv6 Scoped Address Architecture'',
               compliant = True, rfcNotes = Some ''Valid link-local address (fe80::/10)''\<rparr>]
        else [])"

subsection \<open>parse\<close>

definition invalidAddress :: "string \<Rightarrow> string option \<Rightarrow> IPv6Address" where
  "invalidAddress trimmedInput err =
     \<lparr>input = trimmedInput, isValid = False, error = err,
      expanded = [], compressed = [], binary = [], hex = [], integer = [], base64 = [],
      networkAddress = [], prefixLength = 0, firstAddress = [], lastAddress = [],
      totalHosts = [], totalSubnets = [], reverseDNS = [],
      addressType = Reserved, scope = ScopeGlobal,
      isIPv4MappedFlag = False, isIPv4CompatibleFlag = False, isEUI64Flag = False,
      isSLAACCompatible = False, rfcCompliance = []\<rparr>"

text \<open>
  The body of the \<open>try\<close> block: \<open>Inl\<close> is an exception raised inside it. Only
  \<open>toInteger\<close> and \<open>isEUI64\<close> can raise, and the object literal evaluates them in this
  order.
\<close>

definition parseBody :: "host \<Rightarrow> string \<Rightarrow> js_error + IPv6Address" where
  "parseBody h trimmedInput =
     (let parsed = parseIPv6String trimmedInput in
      if \<not> parsedIsValid parsed then Inr (invalidAddress trimmedInput (parsedError parsed))
      else
        let hs = hextets parsed;
            pl = parsedPrefixLength parsed;
            expandedStr = toExpanded hs;
            compressedStr = toCompressed hs;
            binaryStr = toBinary hs;
            addrType = getAddressType hs;
            addrScope = getAddressScope hs addrType;
            networkHextets = getNetworkAddress hs pl;
            networkAddr = toCompressed networkHextets;
            range = getAddressRange hs pl;
            hosts = calculateTotalHosts h pl;
            subnetsStr = calculateTotalSubnets h pl
        in case toInteger hs of
             Inl e \<Rightarrow> Inl e
           | Inr integerStr \<Rightarrow>
               (case isEUI64 hs of
                  Inl e \<Rightarrow> Inl e
                | Inr eui \<Rightarrow>
                    Inr \<lparr>input = trimmedInput, isValid = True, error = None,
                         expanded = expandedStr, compressed = compressedStr,
                         binary = binaryStr, hex = toHex hs, integer = integerStr,
                         base64 = toBase64 hs,
                         networkAddress = networkAddr @ ''/'' @ decString pl,
                         prefixLength = pl,
                         firstAddress = fst range, lastAddress = snd range,
                         totalHosts = hosts, totalSubnets = subnetsStr,
                         reverseDNS = toReverseDNS hs,
                         addressType = addrType, scope = addrScope,
                         isIPv4MappedFlag = isIPv4Mapped hs,
                         isIPv4CompatibleFlag = isIPv4Compatible hs,
                         isEUI64Flag = eui,
                         isSLAACCompatible = (pl = 64),
                         rfcCompliance = getRFCCompliance hs addrType\<rparr>))"

definition parse :: "host \<Rightarrow> string \<Rightarrow> IPv6Address" where
  "parse h inp =
     (let trimmedInput = trim_js inp in
      case parseBody h trimmedInput of
        Inr r \<Rightarrow> r
      | Inl e \<Rightarrow> invalidAddress trimmedInput (Some (errorMessage h e)))"

section \<open>The subnet planner (utils/subnetting.ts)\<close>

definition parseHextets :: "string \<Rightarrow> jsnum list" where
  "parseHextets expandedStr = map (\<lambda>hex. parseInt hex 16) (split_js '':'' expandedStr)"

definition hextetsToAddress :: "jsnum list \<Rightarrow> string" where
  "hextetsToAddress hs = join_js '':'' (map (\<lambda>h. padStart 4 (CHR ''0'') (numToString 16 h)) hs)"

text \<open>
  The \<open>while\<close> loop of \<open>calculateSubnetAddress\<close>; its state is \<open>result\<close>,
  \<open>remainingSubnetBits\<close> and \<open>currentHextetIndex\<close>.
\<close>

function subnetLoop ::
  "int \<Rightarrow> int \<Rightarrow> int \<Rightarrow> jsnum list \<Rightarrow> int \<Rightarrow> int \<Rightarrow> jsnum list"
where
  "subnetLoop hextetIndex bitsInHextet currentIndex result remainingSubnetBits currentHextetIndex =
     (if 0 < remainingSubnetBits \<and> currentHextetIndex < 8 then
        (let availableBitsInHextet =
               16 - (if currentHextetIndex = hextetIndex then bitsInHextet else 0);
             bitsToUse = min remainingSubnetBits availableBitsInHextet;
             shift = availableBitsInHextet - bitsToUse;
             mask = js_shl (js_shl 1 bitsToUse - 1) shift;
             subnetPart = js_and (js_sar currentIndex (remainingSubnetBits - bitsToUse))
                                 (js_shl 1 bitsToUse - 1)
         in subnetLoop hextetIndex bitsInHextet currentIndex
              (js_set result currentHextetIndex
                 (Num (js_or (js_and (intOf (js_nth result currentHextetIndex)) (js_not mask))
                             (js_shl subnetPart shift))))
              (remainingSubnetBits - bitsToUse) (currentHextetIndex + 1))
      else result)"
  by pat_completeness auto
termination
  by (relation "measure (\<lambda>(hi, b, ci, r, rem, cur). nat (8 - cur))") auto

declare subnetLoop.simps [simp del]

definition calculateSubnetAddress :: "jsnum list \<Rightarrow> int \<Rightarrow> int \<Rightarrow> int \<Rightarrow> jsnum list" where
  "calculateSubnetAddress baseHextets basePrefixLength targetPrefixLen subnetIndex =
     (let subnetBits = targetPrefixLen - basePrefixLength;
          totalBitsFromStart = basePrefixLength;
          hextetIndex = totalBitsFromStart div 16;
          bitsInHextet = totalBitsFromStart mod 16
      in subnetLoop hextetIndex bitsInHextet subnetIndex baseHextets subnetBits hextetIndex)"

definition getSubnetRange :: "jsnum list \<Rightarrow> int \<Rightarrow> string \<times> string" where
  "getSubnetRange hs prefixLen =
     (let fullHextets = prefixLen div 16;
          remainingBits = prefixLen mod 16;
          both = foldl (\<lambda>(firstHextets, lastHextets) i.
                   if i = fullHextets \<and> 0 < remainingBits then
                     (let hostMask = js_shl 1 (16 - remainingBits) - 1
                      in (js_set firstHextets i
                            (Num (js_and (intOf (js_nth firstHextets i)) (js_not hostMask))),
                          js_set lastHextets i
                            (Num (js_or (intOf (js_nth lastHextets i)) hostMask))))
                   else (js_set firstHextets i (Num 0), js_set lastHextets i (Num 0xffff)))
                 (hs, hs) [fullHextets..7]
      in (hextetsToAddress (fst both), hextetsToAddress (snd both)))"

definition calculateHostCount :: "host \<Rightarrow> int \<Rightarrow> string" where
  "calculateHostCount h prefixLen =
     (let hostBits = 128 - prefixLen
      in if 64 \<le> hostBits then ''2^'' @ decString hostBits
         else toLocaleString h (2 ^ nat hostBits))"

text \<open>The record pushed for the subnet of index \<open>i\<close>.\<close>

definition subnetInfo :: "host \<Rightarrow> jsnum list \<Rightarrow> int \<Rightarrow> int \<Rightarrow> int \<Rightarrow> SubnetInfo" where
  "subnetInfo h baseHextets basePrefixLength targetPrefixLen i =
     (let subnetHextets = calculateSubnetAddress baseHextets basePrefixLength targetPrefixLen i;
          net = hextetsToAddress subnetHextets;
          range = getSubnetRange subnetHextets targetPrefixLen
      in \<lparr>network = net @ ''/'' @ decString targetPrefixLen,
          subnetFirstAddress = fst range,
          subnetLastAddress = snd range,
          broadcastAddress = snd range,
          subnetTotalHosts = calculateHostCount h targetPrefixLen\<rparr>)"

text \<open>
  \<open>calculateSubnets\<close> with an integer target and an optional integer \<open>count\<close>
  (\<open>None\<close> is an absent argument). \<open>Inl\<close> is the exception raised to the caller. An
  array holds at most \<open>2^32 - 1\<close> elements: the \<open>push\<close> that would pass this length raises
  a RangeError.
\<close>

definition calculateSubnets ::
  "host \<Rightarrow> string \<Rightarrow> int \<Rightarrow> int option \<Rightarrow> js_error + SubnetPlan"
where
  "calculateSubnets h prefix targetPrefixLen count =
     (let parsed = parse h prefix in
      if \<not> isValid parsed then Inl (Error ''Invalid IPv6 prefix'')
      else if targetPrefixLen \<le> prefixLength parsed
      then Inl (Error ''Target prefix length must be longer than current prefix'')
      else if 128 < targetPrefixLen
      then Inl (Error ''Target prefix length cannot exceed 128'')
      else
        let subnetBits = targetPrefixLen - prefixLength parsed;
            totalPossibleSubnets = 2 ^ nat subnetBits;
            subnetsToGenerate =
              (case count of
                 None \<Rightarrow> totalPossibleSubnets
               | Some c \<Rightarrow> if c \<noteq> 0 then min c totalPossibleSubnets else totalPossibleSubnets);
            baseHextets = parseHextets (expanded parsed)
        in if 2 ^ 32 - 1 < subnetsToGenerate then Inl RangeError
           else Inr \<lparr>originalPrefix = prefix,
                     targetPrefixLength = targetPrefixLen,
                     subnets = map (subnetInfo h baseHextets (prefixLength parsed) targetPrefixLen)
                                 [0..subnetsToGenerate - 1],
                     planTotalSubnets = totalPossibleSubnets\<rparr>)"

section \<open>A concrete host\<close>

text \<open>
  A host with the en-US locale, used where a result is computed on a concrete input.
  Its \<open>toLocaleString\<close>, for a Number that holds an integer, prints the digits that
  \<open>Number::toString\<close> chooses (the shortest decimal that converts back to the same
  Number, the closest one among the shortest, followed by zeros) and groups them by three
  with commas. From \<open>2^55\<close> on these are not the digits of the exact value:
  \<open>2^63\<close> prints as \<open>9,223,372,036,854,776,000\<close>.
\<close>

function groupDigits :: "string \<Rightarrow> string" where
  "groupDigits s =
     (if length s \<le> 3 then s
      else groupDigits (take (length s - 3) s) @ '','' @ drop (length s - 3) s)"
  by pat_completeness auto
termination
  by (relation "measure length") auto

declare groupDigits.simps [simp del]

text \<open>
  The search for the shortest decimal of the non-negative Number \<open>x\<close>: \<open>e\<close> is the
  number of trailing zeros tried, from the most down to none; \<open>lo\<close> and \<open>hi\<close> are the
  two multiples of \<open>10^e\<close> around \<open>x\<close>, and one is taken when it converts back to
  \<open>x\<close>.
\<close>

fun shortestFrom :: "int \<Rightarrow> nat \<Rightarrow> int" where
  "shortestFrom x 0 = x"
| "shortestFrom x (Suc e) =
     (let pw = 10 ^ Suc e;
          lo = (x div pw) * pw;
          hi = lo + pw;
          okLo = (toNumber lo = Num x);
          okHi = (toNumber hi = Num x)
      in if okLo \<and> okHi then
           (if x - lo < hi - x then lo
            else if hi - x < x - lo then hi
            else if even (x div pw) then lo else hi)
         else if okLo then lo
         else if okHi then hi
         else shortestFrom x e)"

definition toLocaleStringEnUS :: "int \<Rightarrow> string" where
  "toLocaleStringEnUS x =
     (if x < 0
      then CHR ''-'' # groupDigits (decString (shortestFrom (- x) (length (toRadix 10 (- x)))))
      else groupDigits (decString (shortestFrom x (length (toRadix 10 x)))))"

definition hostEnUS :: host where
  "hostEnUS =
     \<lparr>toLocaleString = toLocaleStringEnUS,
      rangeErrorMessage =
        ''The number -Infinity cannot be converted to a BigInt because it is not an integer''\<rparr>"

section \<open>Notions used in the statements\<close>

text \<open>
  What every result of \<open>parseIPv6String\<close> satisfies: eight words when valid, a
  non-empty error text otherwise.
\<close>

definition parsedOk :: "ParsedIPv6 \<Rightarrow> bool" where
  "parsedOk r = (if parsedIsValid r then length (hextets r) = 8
                 else (case parsedError r of Some m \<Rightarrow> m \<noteq> [] | None \<Rightarrow> False))"

text \<open>The lowercase hexadecimal digits.\<close>

definition isLowerHex :: "char \<Rightarrow> bool" where
  "isLowerHex c = (c \<in> set ''0123456789abcdef'')"

text \<open>A Word128 of the specification: eight words, each in \<open>[0, 0xFFFF]\<close>.\<close>

definition word128 :: "int list \<Rightarrow> bool" where
  "word128 ws = (length ws = 8 \<and> list_all (\<lambda>x. 0 \<le> x \<and> x \<le> 0xffff) ws)"

text \<open>One group of the expanded form, as \<open>toExpanded\<close> renders it.\<close>

definition hextetText :: "int \<Rightarrow> string" where
  "hextetText x = padStart 4 (CHR ''0'') (numToString 16 (Num x))"

text \<open>
  Following the specification's words: a maximal run of consecutive zero words of \<open>w\<close>,
  starting at index \<open>s\<close> and of length \<open>l\<close>. It cannot be extended to the left or to
  the right.
\<close>

definition zeroRun :: "int list \<Rightarrow> nat \<Rightarrow> nat \<Rightarrow> bool" where
  "zeroRun w s l =
     (0 < l \<and> s + l \<le> length w
      \<and> (\<forall>k\<in>set [s..<s + l]. w ! k = 0)
      \<and> (s = 0 \<or> w ! (s - 1) \<noteq> 0)
      \<and> (s + l = length w \<or> w ! (s + l) \<noteq> 0))"

text \<open>
  The run that \<open>toCompressed\<close> selects, checked against the specification on one
  pattern of zero and non-zero words (\<open>True\<close> is a zero word): when the selected length
  is above 1 it is a maximal run, no maximal run is longer, and none of the same length
  starts further left; otherwise every maximal run has length 1.
\<close>

definition runChoice :: "bool list \<Rightarrow> bool" where
  "runChoice bs =
     (let w = map (\<lambda>b. if b then 0 else 1 :: int) bs;
          c = longestSequence (findZeroSequences (map (\<lambda>b. if b then ''0000'' else ''0001'') bs))
      in if 1 < seqLength c
         then 0 \<le> seqStart c \<and> zeroRun w (nat (seqStart c)) (nat (seqLength c))
              \<and> (\<forall>(s', l')\<in>set (List.product [0..<8] [1..<9]).
                    zeroRun w s' l' \<longrightarrow>
                      l' < nat (seqLength c) \<or> (l' = nat (seqLength c) \<and> nat (seqStart c) \<le> s'))
         else (\<forall>(s', l')\<in>set (List.product [0..<8] [1..<9]). zeroRun w s' l' \<longrightarrow> l' = 1))"

text \<open>
  Following the specification's words: the network of the subnet of index \<open>i\<close>, that is
  the base words with the binary form of \<open>i\<close>, padded to \<open>t - p\<close> bits, written into
  the bits \<open>[p, t)\<close> of the 128-bit value, most significant bit first, and all other
  bits unchanged.
\<close>

definition addressValue :: "int list \<Rightarrow> int" where
  "addressValue ws = foldl (\<lambda>a x. a * 65536 + x) 0 ws"

definition wordsOfValue :: "int \<Rightarrow> int list" where
  "wordsOfValue v = map (\<lambda>k. (v div 2 ^ (16 * (7 - k))) mod 65536) [0..<8]"

definition subnetOfIndexSpec :: "int list \<Rightarrow> nat \<Rightarrow> nat \<Rightarrow> int \<Rightarrow> int list" where
  "subnetOfIndexSpec ws p t i =
     (let v = addressValue ws;
          old = (v div 2 ^ (128 - t)) mod 2 ^ (t - p)
      in wordsOfValue (v - old * 2 ^ (128 - t) + (i mod 2 ^ (t - p)) * 2 ^ (128 - t)))"


section \<open>Results of the parser\<close>

lemma validParsed_sel [simp]:
  "parsedIsValid (validParsed hs p)" "hextets (validParsed hs p) = hs"
  "parsedPrefixLength (validParsed hs p) = p" "parsedError (validParsed hs p) = None"
  by (simp_all add: validParsed_def)

lemma invalidParsed_sel [simp]:
  "\<not> parsedIsValid (invalidParsed m)" "hextets (invalidParsed m) = []"
  "parsedPrefixLength (invalidParsed m) = 0" "parsedError (invalidParsed m) = Some m"
  by (simp_all add: invalidParsed_def)

lemma parseGroups_unfold:
  assumes "parts = split_js ''::'' a"
    and "leftParts =
           (if length parts = 2 then (if parts ! 0 \<noteq> [] then split_js '':'' (parts ! 0) else [])
            else split_js '':'' (hd parts))"
    and "rightParts =
           (if length parts = 2 then (if parts ! 1 \<noteq> [] then split_js '':'' (parts ! 1) else [])
            else [])"
    and "zerosNeeded = 8 - int (length (filter (\<lambda>p. p \<noteq> []) leftParts))
                         - int (length (filter (\<lambda>p. p \<noteq> []) rightParts))"
  shows "parseGroups a p =
     (if 2 < length parts then invalidParsed ''Multiple :: not allowed''
      else case pushParts leftParts [] of
             None \<Rightarrow> invalidParsed ''Invalid hexadecimal value''
           | Some hs1 \<Rightarrow>
               (case pushParts rightParts
                       (if length parts = 2 then hs1 @ replicate (nat zerosNeeded) (Num 0) else hs1) of
                    None \<Rightarrow> invalidParsed ''Invalid hexadecimal value''
                  | Some hs3 \<Rightarrow>
                      if length hs3 \<noteq> 8 then invalidParsed ''Invalid IPv6 address format''
                      else validParsed hs3 p))"
  unfolding parseGroups_def assms Let_def ..

lemma parseGroups_ok: "parsedOk (parseGroups a p)"
proof -
  define parts where "parts = split_js ''::'' a"
  define leftParts where "leftParts =
           (if length parts = 2 then (if parts ! 0 \<noteq> [] then split_js '':'' (parts ! 0) else [])
            else split_js '':'' (hd parts))"
  define rightParts where "rightParts =
           (if length parts = 2 then (if parts ! 1 \<noteq> [] then split_js '':'' (parts ! 1) else [])
            else [])"
  define zerosNeeded where "zerosNeeded = 8 - int (length (filter (\<lambda>p. p \<noteq> []) leftParts))
                         - int (length (filter (\<lambda>p. p \<noteq> []) rightParts))"
  show ?thesis
    unfolding parseGroups_unfold [OF parts_def leftParts_def rightParts_def zerosNeeded_def]
    by (simp add: parsedOk_def split: option.split)
qed

lemma parseAddress_ok: "parsedOk (parseAddress a p)"
proof (cases "a = ''::''")
  case True
  then show ?thesis by (simp add: parseAddress_def parsedOk_def)
next
  case notdc: False
  show ?thesis
  proof (cases "ipv4MappedMatch a")
    case None
    with notdc have "parseAddress a p = parseGroups a p" by (simp add: parseAddress_def)
    then show ?thesis using parseGroups_ok [of a p] by simp
  next
    case (Some q)
    show ?thesis
    proof (cases "list_all (\<lambda>part. numGeq part 0 \<and> numLeq part 255)
                    (map Number_js (split_js ''.'' q))")
      case True
      with notdc Some show ?thesis by (simp add: parseAddress_def Let_def parsedOk_def)
    next
      case False
      with notdc Some have "parseAddress a p = parseGroups a p"
        by (simp add: parseAddress_def Let_def)
      then show ?thesis using parseGroups_ok [of a p] by simp
    qed
  qed
qed

lemma parseIPv6String_ok: "parsedOk (parseIPv6String s)"
proof (cases "prefixMatch s")
  case None
  then have "parseIPv6String s = parseAddress s 128" by (simp add: parseIPv6String_def)
  then show ?thesis using parseAddress_ok [of s 128] by simp
next
  case (Some ad)
  obtain a d where ad: "ad = (a, d)" by (cases ad)
  show ?thesis
  proof (cases "numLess (parseInt d 10) 0 \<or> numGreater (parseInt d 10) 128")
    case True
    then have "parseIPv6String s = invalidParsed ''Invalid prefix length''"
      by (simp add: parseIPv6String_def Some ad Let_def)
    then show ?thesis by (simp add: parsedOk_def)
  next
    case False
    then have "parseIPv6String s = parseAddress a (intOf (parseInt d 10))"
      by (simp add: parseIPv6String_def Some ad Let_def)
    then show ?thesis using parseAddress_ok [of a "intOf (parseInt d 10)"] by simp
  qed
qed

lemma BigInt_js_Inl: "BigInt_js v = Inl e \<Longrightarrow> e = RangeError"
  by (auto simp: BigInt_js_def split: jsnum.splits)

lemma toIntegerLoop_Inl: "toIntegerLoop hs r = Inl e \<Longrightarrow> e = RangeError"
  by (induction hs arbitrary: r) (auto split: sum.splits dest: BigInt_js_Inl)

lemma toInteger_Inl: "toInteger hs = Inl e \<Longrightarrow> e = RangeError"
  by (auto simp: toInteger_def split: sum.splits dest: toIntegerLoop_Inl)

lemma isEUI64_Inl: "isEUI64 hs = Inl e \<Longrightarrow> e = RangeError"
  unfolding isEUI64_def
  by (auto split: sum.splits dest: BigInt_js_Inl)

lemma parseBody_invalid:
  assumes "\<not> parsedIsValid (parseIPv6String t)"
  shows "\<exists>m. m \<noteq> [] \<and> parseBody h t = Inr (invalidAddress t (Some m))"
proof -
  from parseIPv6String_ok [of t] assms obtain m
    where m: "parsedError (parseIPv6String t) = Some m" "m \<noteq> []"
    by (auto simp: parsedOk_def split: option.splits)
  have "parseBody h t = Inr (invalidAddress t (Some m))"
    unfolding parseBody_def by (simp add: m(1) assms)
  with m(2) show ?thesis by blast
qed

lemma parseBody_valid:
  assumes "parsedIsValid (parseIPv6String t)"
  shows "(\<exists>r. parseBody h t = Inr r \<and> isValid r) \<or> parseBody h t = Inl RangeError"
proof (cases "toInteger (hextets (parseIPv6String t))")
  case (Inl e)
  then have "parseBody h t = Inl e"
    unfolding parseBody_def by (simp add: assms Let_def)
  with toInteger_Inl [OF Inl] show ?thesis by simp
next
  case (Inr i)
  show ?thesis
  proof (cases "isEUI64 (hextets (parseIPv6String t))")
    case (Inl e)
    then have "parseBody h t = Inl e"
      unfolding parseBody_def by (simp add: assms Let_def Inr)
    with isEUI64_Inl [OF Inl] show ?thesis by simp
  next
    case (Inr b)
    have "\<exists>r. parseBody h t = Inr r \<and> isValid r"
      unfolding parseBody_def by (simp add: assms Let_def Inr \<open>toInteger _ = Inr i\<close>)
    then show ?thesis by simp
  qed
qed

lemma parse_invalid_shape:
  assumes "rangeErrorMessage h \<noteq> []" and "\<not> isValid (parse h s)"
  shows "\<exists>m. m \<noteq> [] \<and> parse h s = invalidAddress (trim_js s) (Some m)"
proof (cases "parsedIsValid (parseIPv6String (trim_js s))")
  case False
  from parseBody_invalid [OF False, of h] show ?thesis
    by (auto simp: parse_def)
next
  case True
  from parseBody_valid [OF True, of h] assms(2)
  have "parseBody h (trim_js s) = Inl RangeError"
    by (auto simp: parse_def)
  then have "parse h s = invalidAddress (trim_js s) (Some (rangeErrorMessage h))"
    by (simp add: parse_def errorMessage_def)
  with assms(1) show ?thesis by blast
qed

text \<open>
  What holds of every record that \<open>parse\<close> returns with \<open>isValid\<close> false (the host's
  message for the RangeError of \<open>BigInt\<close> assumed non-empty): it carries a non-empty
  error text and every other field has its default.
\<close>

lemma parse_invalid_defaults:
  assumes "rangeErrorMessage h \<noteq> []" and "\<not> isValid (parse h s)"
  shows "(\<exists>m. m \<noteq> [] \<and> error (parse h s) = Some m)
       \<and> input (parse h s) = trim_js s
       \<and> expanded (parse h s) = [] \<and> compressed (parse h s) = []
       \<and> binary (parse h s) = [] \<and> hex (parse h s) = []
       \<and> integer (parse h s) = [] \<and> base64 (parse h s) = []
       \<and> networkAddress (parse h s) = [] \<and> prefixLength (parse h s) = 0
       \<and> firstAddress (parse h s) = [] \<and> lastAddress (parse h s) = []
       \<and> totalHosts (parse h s) = [] \<and> totalSubnets (parse h s) = []
       \<and> reverseDNS (parse h s) = []
       \<and> addressType (parse h s) = Reserved \<and> scope (parse h s) = ScopeGlobal
       \<and> isIPv4MappedFlag (parse h s) = False \<and> isIPv4CompatibleFlag (parse h s) = False
       \<and> isEUI64Flag (parse h s) = False \<and> isSLAACCompatible (parse h s) = False
       \<and> rfcCompliance (parse h s) = []"
proof -
  from parse_invalid_shape [OF assms] obtain m
    where "m \<noteq> []" and "parse h s = invalidAddress (trim_js s) (Some m)" by blast
  then show ?thesis by (simp add: invalidAddress_def)
qed

text \<open>
  Claim C1 at \<open>::1/abc\<close> and \<open>::ffff:999.1.1.1\<close>. Both inputs are invalid (a prefix
  length that is not a number; an octet above 255), and for both \<open>parse\<close> returns a
  valid record with no error and with its derived fields filled in: the suffix \<open>/abc\<close>
  does not match the prefix pattern and is then read as part of the last group, and the
  dotted quad is read as the group \<open>999\<close>; \<open>parseInt\<close> takes the leading digits of a
  group and ignores the rest.
\<close>

theorem parse_accepts_invalid_input:
  "isValid (parse hostEnUS ''::1/abc'')
   \<and> error (parse hostEnUS ''::1/abc'') = None
   \<and> compressed (parse hostEnUS ''::1/abc'') = ''::1''
   \<and> prefixLength (parse hostEnUS ''::1/abc'') = 128
   \<and> networkAddress (parse hostEnUS ''::1/abc'') = ''::1/128''
   \<and> isValid (parse hostEnUS ''::ffff:999.1.1.1'')
   \<and> error (parse hostEnUS ''::ffff:999.1.1.1'') = None
   \<and> compressed (parse hostEnUS ''::ffff:999.1.1.1'') = ''::ffff:999''"
  by code_simp






text \<open>
  Claim C7 at \<open>fe90::1\<close>: the top ten bits of the first word are \<open>1111 1110 10\<close>, the
  address is neither all-zero nor the loopback, and the classification is Reserved, not
  LinkLocal: the code compares the whole first word with \<open>0xfe80\<close>.
\<close>

theorem getAddressType_fe90:
  "js_and 0xfe90 0xffc0 = 0xfe80
   \<and> getAddressType [Num 0xfe90, Num 0, Num 0, Num 0, Num 0, Num 0, Num 0, Num 1] = Reserved
   \<and> isValid (parse hostEnUS ''fe90::1'')
   \<and> addressType (parse hostEnUS ''fe90::1'') = Reserved"
  by code_simp

text \<open>
  Claim C5 at \<open>1g::\<close> and \<open>00001::\<close>: a group with a non-hexadecimal character after its
  first digit, and a group of five digits, are accepted; \<open>parseInt\<close> reads the leading
  digits and only the value is checked.
\<close>

theorem parse_accepts_trailing_garbage:
  "parseIPv6String ''1g::'' =
     validParsed [Num 1, Num 0, Num 0, Num 0, Num 0, Num 0, Num 0, Num 0] 128
   \<and> isValid (parse hostEnUS ''1g::'')
   \<and> parseIPv6String ''00001::'' =
     validParsed [Num 1, Num 0, Num 0, Num 0, Num 0, Num 0, Num 0, Num 0] 128
   \<and> isValid (parse hostEnUS ''00001::'')"
  by code_simp

text \<open>
  Claim C6 at \<open>::ffff:1.2.3.256\<close>: the octet test fails, the code falls through to the
  colon-hex parser, which reads the dotted quad as the group \<open>1\<close>; the result is valid.
\<close>

theorem parse_accepts_bad_octet:
  "parseIPv6String ''::ffff:1.2.3.256'' =
     validParsed [Num 0, Num 0, Num 0, Num 0, Num 0, Num 0, Num 0xffff, Num 1] 128
   \<and> isValid (parse hostEnUS ''::ffff:1.2.3.256'')
   \<and> error (parse hostEnUS ''::ffff:1.2.3.256'') = None
   \<and> compressed (parse hostEnUS ''::ffff:1.2.3.256'') = ''::ffff:1''"
  by code_simp

text \<open>
  Claim C2 at \<open>-1::\<close>: the result is valid and its first word is \<open>-1\<close>, outside
  \<open>[0, 0xFFFF]\<close>; only the upper bound of a group is checked.
\<close>

theorem parse_accepts_negative_word:
  "parseIPv6String ''-1::'' =
     validParsed [Num (- 1), Num 0, Num 0, Num 0, Num 0, Num 0, Num 0, Num 0] 128
   \<and> isValid (parse hostEnUS ''-1::'')
   \<and> expanded (parse hostEnUS ''-1::'') = ''00-1:0000:0000:0000:0000:0000:0000:0000''"
  by code_simp

text \<open>
  Claim C9 at base \<open>2001:db8::/32\<close>, target 80, index 1: the index is 48 bits wide, the
  first shift count is 32, which the shift operator takes modulo 32, so the low bits of
  the index are also written into word 2. The claim requires \<open>2001:db8:0:0:1::/80\<close>.
\<close>

theorem subnet_index_wide_range:
  "calculateSubnetAddress
     [Num 0x2001, Num 0xdb8, Num 0, Num 0, Num 0, Num 0, Num 0, Num 0] 32 80 1
   = [Num 0x2001, Num 0xdb8, Num 1, Num 0, Num 1, Num 0, Num 0, Num 0]
   \<and> subnetOfIndexSpec [0x2001, 0xdb8, 0, 0, 0, 0, 0, 0] 32 80 1
   = [0x2001, 0xdb8, 0, 0, 1, 0, 0, 0]
   \<and> map_sum id (map network \<circ> subnets) (calculateSubnets hostEnUS ''2001:db8::/32'' 80 (Some 2))
   = Inr [''2001:0db8:0000:0000:0000:0000:0000:0000/80'',
          ''2001:0db8:0001:0000:0001:0000:0000:0000/80'']"
  by code_simp

text \<open>
  The scenario of the specification, with a range of two bits: the four networks, and
  the code agrees there with the specification's bit write.
\<close>

lemma plan_scenario:
  "map_sum id (map network \<circ> subnets) (calculateSubnets hostEnUS ''2001:db8::/32'' 34 None)
   = Inr [''2001:0db8:0000:0000:0000:0000:0000:0000/34'',
          ''2001:0db8:4000:0000:0000:0000:0000:0000/34'',
          ''2001:0db8:8000:0000:0000:0000:0000:0000/34'',
          ''2001:0db8:c000:0000:0000:0000:0000:0000/34'']
   \<and> map (\<lambda>i. calculateSubnetAddress
                  [Num 0x2001, Num 0xdb8, Num 0, Num 0, Num 0, Num 0, Num 0, Num 0] 32 34 i)
         [0, 1, 2, 3]
     = map (\<lambda>i. map Num (subnetOfIndexSpec [0x2001, 0xdb8, 0, 0, 0, 0, 0, 0] 32 34 i))
         [0, 1, 2, 3]"
  by code_simp

section \<open>Hexadecimal digits\<close>

lemma small_int_cases:
  assumes "0 \<le> d" "d < 16"
  shows "d \<in> {0, 1, 2, 3, 4, 5, 6, 7, 8, 9, 10, 11, 12, 13, 14, 15 :: int}"
  using assms by simp presburger

lemma digitChar_hex: "0 \<le> d \<Longrightarrow> d < 16 \<Longrightarrow> isLowerHex (digitChar d)"
  using small_int_cases [of d] by (auto simp: digitChar_def isLowerHex_def char_of_eq_iff)

lemma digitVal_digitChar: "0 \<le> d \<Longrightarrow> d < 16 \<Longrightarrow> digitVal (digitChar d) = Some d"
  using small_int_cases [of d] by (auto simp: digitChar_def digitVal_def)

lemma lowerHex_props:
  assumes "isLowerHex c"
  shows "isDigitIn 16 c" "c \<noteq> CHR '':''" "\<not> isStrWhiteSpace c" "c \<noteq> CHR ''-''"
    "c \<noteq> CHR ''+''" "c \<noteq> CHR ''x''" "c \<noteq> CHR ''X''" "c \<noteq> CHR ''/''" "c \<noteq> CHR ''.''"
  using assms
  by (auto simp: isLowerHex_def isDigitIn_def digitVal_def isStrWhiteSpace_def)

lemma toRadix16_hex: "0 \<le> n \<Longrightarrow> list_all isLowerHex (toRadix 16 n) \<and> toRadix 16 n \<noteq> []"
proof (induction "16 :: int" n rule: toRadix.induct)
  case (1 n)
  show ?case
  proof (cases "n < 16")
    case True
    with 1(2) show ?thesis by (simp add: toRadix.simps [of 16 n] digitChar_hex)
  next
    case False
    with 1 have "list_all isLowerHex (toRadix 16 (n div 16))" by simp
    moreover have "isLowerHex (digitChar (n mod 16))" by (simp add: digitChar_hex)
    ultimately show ?thesis using False by (simp add: toRadix.simps [of 16 n])
  qed
qed

lemma digitsValue_snoc:
  "digitsValue r (s @ [c]) = digitsValue r s * r + (case digitVal c of Some v \<Rightarrow> v | None \<Rightarrow> 0)"
  by (simp add: digitsValue_def)

lemma digitsValue_toRadix16: "0 \<le> n \<Longrightarrow> digitsValue 16 (toRadix 16 n) = n"
proof (induction "16 :: int" n rule: toRadix.induct)
  case (1 n)
  show ?case
  proof (cases "n < 16")
    case True
    with 1(2) show ?thesis
      by (simp add: toRadix.simps [of 16 n] digitsValue_def digitVal_digitChar)
  next
    case False
    with 1 have "digitsValue 16 (toRadix 16 (n div 16)) = n div 16" by simp
    then show ?thesis using False
      by (simp add: toRadix.simps [of 16 n] digitsValue_snoc digitVal_digitChar)
  qed
qed

lemma length_toRadix16:
  assumes "0 \<le> n" "n < 65536"
  shows "length (toRadix 16 n) \<le> 4"
proof -
  have a: "length (toRadix 16 m) = 1" if "m < 16" for m
    using that by (simp add: toRadix.simps [of 16 m])
  have b: "length (toRadix 16 m) \<le> 2" if "m < 256" for m
    using that a [of "m div 16"] by (simp add: toRadix.simps [of 16 m])
  have c: "length (toRadix 16 m) \<le> 3" if "m < 4096" for m
    using that b [of "m div 16"] by (simp add: toRadix.simps [of 16 m])
  show ?thesis
    using assms c [of "n div 16"] by (simp add: toRadix.simps [of 16 n])
qed

lemma digitsValue_zeros: "digitsValue 16 (replicate k (CHR ''0'') @ s) = digitsValue 16 s"
proof -
  have "foldl (\<lambda>a c. a * 16 + (case digitVal c of Some v \<Rightarrow> v | None \<Rightarrow> 0)) 0
          (replicate k (CHR ''0'')) = 0"
    by (induction k) (simp_all add: digitVal_def)
  then show ?thesis by (simp add: digitsValue_def)
qed

lemma parseInt_lowerHex:
  assumes "s \<noteq> []" "list_all isLowerHex s" "digitsValue 16 s < 2 ^ 53" "0 \<le> digitsValue 16 s"
  shows "parseInt s 16 = Num (digitsValue 16 s)"
proof -
  obtain c cs where s: "s = c # cs" using assms(1) by (cases s) auto
  have c: "isLowerHex c" using assms(2) s by simp
  have dw: "dropWhile isStrWhiteSpace s = s"
    using lowerHex_props(3) [OF c] s by simp
  have t2: "take 2 s \<noteq> ''0x''" "take 2 s \<noteq> ''0X''"
    using assms(2) s lowerHex_props(6,7) by (cases cs; auto)+
  have tw: "takeWhile (isDigitIn 16) s = s"
    using assms(2) lowerHex_props(1) by (auto simp: takeWhile_eq_all_conv list_all_iff)
  have hd: "hd s \<noteq> CHR ''-''" "hd s \<noteq> CHR ''+''"
    using lowerHex_props(4,5) [OF c] s by simp_all
  have "toNumber (digitsValue 16 s) = Num (digitsValue 16 s)"
    using assms(3,4) by (simp add: toNumber_def)
  then show ?thesis
    unfolding parseInt_def Let_def dw using t2 tw hd assms(1)
    by (simp del: takeWhile_eq_all_conv)
qed

lemma hextetText_props:
  assumes "0 \<le> x" "x \<le> 0xffff"
  shows "length (hextetText x) = 4" "list_all isLowerHex (hextetText x)"
    "digitsValue 16 (hextetText x) = x" "parseInt (hextetText x) 16 = Num x"
    "stripLeadingZeros (hextetText x) = toRadix 16 x"
    "hextetText x = ''0000'' \<longleftrightarrow> x = 0"
proof -
  have r: "list_all isLowerHex (toRadix 16 x)" "toRadix 16 x \<noteq> []" "length (toRadix 16 x) \<le> 4"
    using assms toRadix16_hex [of x] length_toRadix16 [of x] by simp_all
  have ht: "hextetText x = replicate (4 - length (toRadix 16 x)) (CHR ''0'') @ toRadix 16 x"
    using assms by (simp add: hextetText_def numToString_def padStart_def)
  show len: "length (hextetText x) = 4" using r(3) by (simp add: ht)
  have z: "isLowerHex (CHR ''0'')" by (simp add: isLowerHex_def)
  show hexs: "list_all isLowerHex (hextetText x)"
    using r(1) z by (auto simp: ht list_all_iff)
  show dv: "digitsValue 16 (hextetText x) = x"
    using assms by (simp add: ht digitsValue_zeros digitsValue_toRadix16)
  have ne: "hextetText x \<noteq> []" using len by auto
  show pi: "parseInt (hextetText x) 16 = Num x"
    using parseInt_lowerHex [OF ne hexs] assms by (simp add: dv)
  show "stripLeadingZeros (hextetText x) = toRadix 16 x"
    using assms by (simp add: stripLeadingZeros_def pi numToString_def)
  have "digitsValue 16 ''0000'' = 0" by (simp add: digitsValue_def digitVal_def)
  moreover have "hextetText 0 = ''0000''"
    by (simp add: hextetText_def numToString_def padStart_def toRadix.simps [of 16 0] digitChar_def
          char_of_eq_iff numeral_3_eq_3)
  ultimately show "hextetText x = ''0000'' \<longleftrightarrow> x = 0" using dv by auto
qed

section \<open>Splitting and joining\<close>

lemma split_from_skip:
  assumes "sep \<noteq> []" "hd sep \<notin> set g"
  shows "split_from sep acc (g @ rest) = split_from sep (acc @ g) rest"
  using assms(2)
proof (induction g arbitrary: acc)
  case Nil
  then show ?case by simp
next
  case (Cons c g)
  have "take (length sep) (c # g @ rest) \<noteq> sep"
  proof
    assume "take (length sep) (c # g @ rest) = sep"
    then have "hd sep = hd (take (length sep) (c # g @ rest))" by simp
    also have "\<dots> = c" using assms(1) by (cases sep) auto
    finally show False using Cons.prems by simp
  qed
  with Cons show ?case by simp
qed

lemma split_from_sep:
  assumes "sep \<noteq> []"
  shows "split_from sep acc (sep @ rest) = acc # split_from sep [] rest"
proof -
  obtain c cs where sep: "sep = c # cs" using assms by (cases sep) auto
  have "split_from sep acc (c # cs @ rest) = acc # split_from sep [] rest"
    by (simp add: sep)
  then show ?thesis by (simp add: sep)
qed

lemma split_js_no_sep:
  assumes "sep \<noteq> []" "hd sep \<notin> set s"
  shows "split_js sep s = [s]"
  using split_from_skip [OF assms, of "[]" "[]"] by (simp add: split_js_def)

lemma join_js_Cons_nonempty:
  assumes "y \<noteq> []"
  shows "join_js sep (y # ys) \<noteq> []" "hd (join_js sep (y # ys)) = hd y"
  using assms by (cases ys; simp)+

lemma split_colon_join_from:
  assumes "gs \<noteq> []" "\<forall>g\<in>set gs. CHR '':'' \<notin> set g"
  shows "split_from '':'' acc (join_js '':'' gs) = (acc @ hd gs) # tl gs"
  using assms
proof (induction "'':''" gs arbitrary: acc rule: join_js.induct)
  case 1
  then show ?case by simp
next
  case (2 x)
  then show ?case using split_from_skip [of "'':''" x acc "[]"] by simp
next
  case (3 x y ys)
  have "split_from '':'' acc (x @ '':'' @ join_js '':'' (y # ys))
          = split_from '':'' (acc @ x) ('':'' @ join_js '':'' (y # ys))"
    using 3(3) by (intro split_from_skip) simp_all
  also have "\<dots> = (acc @ x) # split_from '':'' [] (join_js '':'' (y # ys))"
    by (intro split_from_sep) simp
  also have "split_from '':'' [] (join_js '':'' (y # ys)) = y # ys"
    using 3(1) [of "[]"] 3(3) by simp
  finally show ?case by simp
qed

lemma split_colon_join:
  assumes "gs \<noteq> []" "\<forall>g\<in>set gs. CHR '':'' \<notin> set g"
  shows "split_js '':'' (join_js '':'' gs) = gs"
  using split_colon_join_from [OF assms, of "[]"] assms(1) by (simp add: split_js_def)

lemma split_dc_colon:
  assumes "s \<noteq> []" "hd s \<noteq> CHR '':''"
  shows "split_from ''::'' acc (CHR '':'' # s) = split_from ''::'' (acc @ '':'') s"
  using assms by (cases s) simp_all

lemma split_dc_join_then:
  assumes "\<forall>g\<in>set gs. g \<noteq> [] \<and> CHR '':'' \<notin> set g"
  shows "split_from ''::'' acc (join_js '':'' gs @ ''::'' @ rest)
           = (acc @ join_js '':'' gs) # split_from ''::'' [] rest"
  using assms
proof (induction "'':''" gs arbitrary: acc rule: join_js.induct)
  case 1
  show ?case using split_from_sep [of "''::''" acc rest] by simp
next
  case (2 x)
  have "split_from ''::'' acc (x @ ''::'' @ rest) = split_from ''::'' (acc @ x) (''::'' @ rest)"
    using 2 by (intro split_from_skip) simp_all
  then show ?case using split_from_sep [of "''::''" "acc @ x" rest] by simp
next
  case (3 x y ys)
  let ?J = "join_js '':'' (y # ys)"
  have y1: "y \<noteq> []" and yc: "CHR '':'' \<notin> set y" using 3(2) by simp_all
  from y1 have "hd y \<in> set y" by simp
  with yc have y2: "hd y \<noteq> CHR '':''" by metis
  note y = y1 y2
  have ne: "?J @ ''::'' @ rest \<noteq> []" "hd (?J @ ''::'' @ rest) \<noteq> CHR '':''"
    using join_js_Cons_nonempty [OF y(1), of "'':''" ys] y(2) by simp_all
  have "split_from ''::'' acc (x @ CHR '':'' # (?J @ ''::'' @ rest))
          = split_from ''::'' (acc @ x) (CHR '':'' # (?J @ ''::'' @ rest))"
    using 3(2) by (intro split_from_skip) simp_all
  also have "\<dots> = split_from ''::'' ((acc @ x) @ '':'') (?J @ ''::'' @ rest)"
    by (rule split_dc_colon [OF ne])
  also have "\<dots> = (((acc @ x) @ '':'') @ ?J) # split_from ''::'' [] rest"
    using 3(1) [of "(acc @ x) @ '':''"] 3(2) by simp
  finally show ?case by simp
qed

lemma split_dc_join:
  assumes "\<forall>g\<in>set gs. g \<noteq> [] \<and> CHR '':'' \<notin> set g"
  shows "split_from ''::'' acc (join_js '':'' gs) = [acc @ join_js '':'' gs]"
  using assms
proof (induction "'':''" gs arbitrary: acc rule: join_js.induct)
  case 1
  show ?case by simp
next
  case (2 x)
  then show ?case using split_from_skip [of "''::''" x acc "[]"] by simp
next
  case (3 x y ys)
  let ?J = "join_js '':'' (y # ys)"
  have y1: "y \<noteq> []" and yc: "CHR '':'' \<notin> set y" using 3(2) by simp_all
  from y1 have "hd y \<in> set y" by simp
  with yc have y2: "hd y \<noteq> CHR '':''" by metis
  note y = y1 y2
  have ne: "?J \<noteq> []" "hd ?J \<noteq> CHR '':''"
    using join_js_Cons_nonempty [OF y(1), of "'':''" ys] y(2) by simp_all
  have "split_from ''::'' acc (x @ CHR '':'' # ?J) = split_from ''::'' (acc @ x) (CHR '':'' # ?J)"
    using 3(2) by (intro split_from_skip) simp_all
  also have "\<dots> = split_from ''::'' ((acc @ x) @ '':'') ?J"
    by (rule split_dc_colon [OF ne])
  also have "\<dots> = [((acc @ x) @ '':'') @ ?J]"
    using 3(1) [of "(acc @ x) @ '':''"] 3(2) by simp
  finally show ?case by simp
qed

lemma set_join_js: "set (join_js sep gs) \<subseteq> set sep \<union> \<Union> (set ` set gs)"
  by (induction sep gs rule: join_js.induct) auto

lemma join_js_empty_iff:
  assumes "\<forall>g\<in>set gs. g \<noteq> []"
  shows "join_js sep gs = [] \<longleftrightarrow> gs = []"
  using assms by (cases gs) (auto simp: join_js_Cons_nonempty)

section \<open>The choice of the run to compress\<close>

lemma runChoice_FF: "\<forall>bs\<in>set (List.n_lists 6 [False, True]). runChoice (False # False # bs)"
  by code_simp

lemma runChoice_FT: "\<forall>bs\<in>set (List.n_lists 6 [False, True]). runChoice (False # True # bs)"
  by code_simp

lemma runChoice_TF: "\<forall>bs\<in>set (List.n_lists 6 [False, True]). runChoice (True # False # bs)"
  by code_simp

lemma runChoice_TT: "\<forall>bs\<in>set (List.n_lists 6 [False, True]). runChoice (True # True # bs)"
  by code_simp

lemma runChoice_all:
  assumes "length bs = 8"
  shows "runChoice bs"
proof -
  obtain b1 b2 bs' where bs: "bs = b1 # b2 # bs'" and len: "length bs' = 6"
    using assms by (cases bs; cases "tl bs"; auto)
  have mem: "bs' \<in> set (List.n_lists 6 [False, True])"
    using len by (auto simp: set_n_lists)
  have "runChoice (False # False # bs')" "runChoice (False # True # bs')"
    "runChoice (True # False # bs')" "runChoice (True # True # bs')"
    using mem runChoice_FF runChoice_FT runChoice_TF runChoice_TT by blast+
  then show ?thesis
    unfolding bs by (cases b1; cases b2) simp_all
qed

lemma scanZeros_cong:
  assumes "map (\<lambda>p. p = ''0000'') ps = map (\<lambda>p. p = ''0000'') qs"
  shows "scanZeros ps i (zs, cur) = scanZeros qs i (zs, cur)"
  using assms
proof (induction ps arbitrary: qs i zs cur)
  case Nil
  then show ?case by simp
next
  case (Cons p ps)
  then obtain q qs' where qs: "qs = q # qs'" by (cases qs) auto
  with Cons.prems have pq: "(p = ''0000'') = (q = ''0000'')"
    and rest: "map (\<lambda>p. p = ''0000'') ps = map (\<lambda>p. p = ''0000'') qs'" by simp_all
  show ?case
    unfolding qs using pq Cons.IH [OF rest] by simp
qed

lemma findZeroSequences_cong:
  assumes "map (\<lambda>p. p = ''0000'') ps = map (\<lambda>p. p = ''0000'') qs"
  shows "findZeroSequences ps = findZeroSequences qs"
  unfolding findZeroSequences_def using scanZeros_cong [OF assms] by simp

lemma zeroRun_cong:
  assumes "map (\<lambda>x. x = 0) w = map (\<lambda>x. x = 0) w'"
  shows "zeroRun w s l = zeroRun w' s l"
proof -
  have len: "length w = length w'" using assms by (rule map_eq_imp_length_eq)
  have nth: "(w ! k = 0) = (w' ! k = 0)" if "k < length w" for k
  proof -
    have "map (\<lambda>x. x = 0) w ! k = map (\<lambda>x. x = 0) w' ! k" using assms by simp
    then show ?thesis using that len by simp
  qed
  show ?thesis
    unfolding zeroRun_def len [symmetric]
    by (rule iffI; (auto simp: nth)[1])
qed

section \<open>The shape of the compressed form\<close>

lemma word128D:
  assumes "word128 w"
  shows "length w = 8" "\<And>x. x \<in> set w \<Longrightarrow> 0 \<le> x \<and> x \<le> 0xffff"
  using assms by (simp_all add: word128_def list_all_iff)

lemma hextetText_no_colon:
  assumes "0 \<le> x" "x \<le> 0xffff"
  shows "CHR '':'' \<notin> set (hextetText x)"
  using hextetText_props(2) [OF assms] lowerHex_props(2) by (auto simp: list_all_iff)

lemma toExpanded_parts:
  assumes "word128 w"
  shows "toExpanded (map Num w) = join_js '':'' (map hextetText w)"
    and "split_js '':'' (toExpanded (map Num w)) = map hextetText w"
proof -
  have "hextetText = (\<lambda>x. padStart 4 (CHR ''0'') (numToString 16 (Num x)))"
    by (simp add: hextetText_def fun_eq_iff)
  then show e: "toExpanded (map Num w) = join_js '':'' (map hextetText w)"
    by (simp add: toExpanded_def comp_def)
  have "map hextetText w \<noteq> []" using word128D(1) [OF assms] by auto
  moreover have "\<forall>g\<in>set (map hextetText w). CHR '':'' \<notin> set g"
    using word128D(2) [OF assms] hextetText_no_colon by auto
  ultimately show "split_js '':'' (toExpanded (map Num w)) = map hextetText w"
    unfolding e by (rule split_colon_join)
qed

lemma strip_parts:
  assumes "\<forall>x\<in>set xs. 0 \<le> x \<and> x \<le> 0xffff"
  shows "map stripLeadingZeros (map hextetText xs) = map (toRadix 16) xs"
  using assms by (simp add: hextetText_props(5))

lemma toCompressed_shape:
  assumes "word128 w"
  shows "(\<exists>s l. zeroRun w s l \<and> 2 \<le> l
            \<and> (\<forall>s' l'. zeroRun w s' l' \<longrightarrow> l' < l \<or> (l' = l \<and> s \<le> s'))
            \<and> toCompressed (map Num w) =
                join_js '':'' (map (toRadix 16) (take s w)) @ ''::''
                  @ join_js '':'' (map (toRadix 16) (drop (s + l) w)))
       \<or> ((\<forall>s l. zeroRun w s l \<longrightarrow> l = 1)
            \<and> toCompressed (map Num w) = join_js '':'' (map (toRadix 16) w))"
proof -
  note len = word128D(1) [OF assms] and rng = word128D(2) [OF assms]
  define parts where "parts = map hextetText w"
  define bs where "bs = map (\<lambda>x. x = 0) w"
  define c where "c = longestSequence (findZeroSequences parts)"
  let ?cs = "map (\<lambda>b. if b then ''0000'' else ''0001'') bs"
  let ?cw = "map (\<lambda>b. if b then 0 else 1 :: int) bs"
  have split: "split_js '':'' (toExpanded (map Num w)) = parts"
    using toExpanded_parts(2) [OF assms] by (simp add: parts_def)
  have plen: "length parts = 8" by (simp add: parts_def len)
  have pat: "map (\<lambda>p. p = ''0000'') parts = bs"
    using rng by (simp add: parts_def bs_def hextetText_props(6))
  have strip_take: "map stripLeadingZeros (take n parts) = map (toRadix 16) (take n w)" for n
  proof -
    have "\<forall>x\<in>set (take n w). 0 \<le> x \<and> x \<le> 0xffff" using rng by (auto dest: in_set_takeD)
    from strip_parts [OF this] show ?thesis by (simp add: parts_def take_map)
  qed
  have strip_drop: "map stripLeadingZeros (drop n parts) = map (toRadix 16) (drop n w)" for n
  proof -
    have "\<forall>x\<in>set (drop n w). 0 \<le> x \<and> x \<le> 0xffff" using rng by (auto dest: in_set_dropD)
    from strip_parts [OF this] show ?thesis by (simp add: parts_def drop_map)
  qed
  have strip_all: "map stripLeadingZeros parts = map (toRadix 16) w"
    using strip_take [of 8] by (simp add: plen len)
  have comp: "toCompressed (map Num w) =
     (if 1 < seqLength c then
        (if seqStart c = 0
         then ''::'' @ join_js '':'' (map stripLeadingZeros (sliceFrom_js parts (seqStart c + seqLength c)))
         else if seqStart c + seqLength c = 8
         then join_js '':'' (map stripLeadingZeros (slice_js parts 0 (seqStart c))) @ ''::''
         else join_js '':'' (map stripLeadingZeros (slice_js parts 0 (seqStart c))) @ ''::''
                @ join_js '':'' (map stripLeadingZeros (sliceFrom_js parts (seqStart c + seqLength c))))
      else join_js '':'' (map stripLeadingZeros parts))"
    unfolding toCompressed_def split Let_def c_def ..
  have fz: "findZeroSequences ?cs = findZeroSequences parts"
    by (rule findZeroSequences_cong) (simp add: pat comp_def)
  have zr: "zeroRun ?cw s l = zeroRun w s l" for s l
    by (rule zeroRun_cong) (simp add: bs_def comp_def)
  have "runChoice bs" by (rule runChoice_all) (simp add: bs_def len)
  then have rc:
    "if 1 < seqLength c
     then 0 \<le> seqStart c \<and> zeroRun w (nat (seqStart c)) (nat (seqLength c))
          \<and> (\<forall>(s', l')\<in>set (List.product [0..<8] [1..<9]).
                zeroRun w s' l' \<longrightarrow>
                  l' < nat (seqLength c) \<or> (l' = nat (seqLength c) \<and> nat (seqStart c) \<le> s'))
     else (\<forall>(s', l')\<in>set (List.product [0..<8] [1..<9]). zeroRun w s' l' \<longrightarrow> l' = 1)"
    unfolding runChoice_def Let_def fz zr c_def [symmetric] .
  have bound: "(s', l') \<in> set (List.product [0..<8] [1..<9])" if "zeroRun w s' l'" for s' l'
    using that len by (auto simp: zeroRun_def)
  show ?thesis
  proof (cases "1 < seqLength c")
    case False
    with rc have "\<forall>(s', l')\<in>set (List.product [0..<8] [1..<9]). zeroRun w s' l' \<longrightarrow> l' = 1"
      by simp
    with bound have "\<forall>s l. zeroRun w s l \<longrightarrow> l = 1" by blast
    moreover have "toCompressed (map Num w) = join_js '':'' (map (toRadix 16) w)"
      using False by (simp add: comp strip_all)
    ultimately show ?thesis by blast
  next
    case True
    define s where "s = nat (seqStart c)"
    define l where "l = nat (seqLength c)"
    from rc True have st: "0 \<le> seqStart c" and run: "zeroRun w s l"
      and best: "\<forall>(s', l')\<in>set (List.product [0..<8] [1..<9]).
                   zeroRun w s' l' \<longrightarrow> l' < l \<or> (l' = l \<and> s \<le> s')"
      by (simp_all add: s_def l_def)
    from bound best have best': "\<forall>s' l'. zeroRun w s' l' \<longrightarrow> l' < l \<or> (l' = l \<and> s \<le> s')"
      by blast
    have l2: "2 \<le> l" using True by (simp add: l_def)
    have sl: "s + l \<le> 8" using run len by (simp add: zeroRun_def)
    have ints: "seqStart c = int s" "seqLength c = int l"
      using st True by (simp_all add: s_def l_def)
    have sl1: "slice_js parts 0 (int s) = take s parts"
      using sl by (simp add: slice_js_def plen)
    have slf: "sliceFrom_js parts (int n) = drop n parts" if "n \<le> 8" for n
      using that by (simp add: sliceFrom_js_def slice_js_def plen)
    have sl2: "sliceFrom_js parts (int s + int l) = drop (s + l) parts"
      using slf [of "s + l"] sl by simp
    have sl3: "sliceFrom_js parts (int l) = drop l parts"
      using slf [of l] sl by simp
    have "toCompressed (map Num w) =
            join_js '':'' (map (toRadix 16) (take s w)) @ ''::''
              @ join_js '':'' (map (toRadix 16) (drop (s + l) w))"
    proof (cases "s = 0")
      case True
      then show ?thesis using \<open>1 < seqLength c\<close>
        by (simp add: comp sl3 strip_drop ints)
    next
      case s0: False
      show ?thesis
      proof (cases "s + l = 8")
        case True
        then have "seqStart c + seqLength c = 8" by (simp add: ints)
        then show ?thesis using \<open>1 < seqLength c\<close> s0 True len
          by (simp add: comp sl1 strip_take ints)
      next
        case False
        then have "seqStart c + seqLength c \<noteq> 8" by (simp add: ints)
        then show ?thesis using \<open>1 < seqLength c\<close> s0
          by (simp add: comp sl1 sl2 strip_take strip_drop ints)
      qed
    qed
    with run l2 best' show ?thesis by blast
  qed
qed

section \<open>Parsing a rendering\<close>

lemma toRadix16_group:
  assumes "0 \<le> x" "x \<le> 0xffff"
  shows "toRadix 16 x \<noteq> []" "CHR '':'' \<notin> set (toRadix 16 x)"
    "parseInt (toRadix 16 x) 16 = Num x"
proof -
  have h: "list_all isLowerHex (toRadix 16 x)" and ne: "toRadix 16 x \<noteq> []"
    using toRadix16_hex [OF assms(1)] by simp_all
  show "toRadix 16 x \<noteq> []" by (rule ne)
  show "CHR '':'' \<notin> set (toRadix 16 x)"
    using h lowerHex_props(2) by (auto simp: list_all_iff)
  show "parseInt (toRadix 16 x) 16 = Num x"
    using parseInt_lowerHex [OF ne h] assms by (simp add: digitsValue_toRadix16)
qed

lemma hextetText_group:
  assumes "0 \<le> x" "x \<le> 0xffff"
  shows "hextetText x \<noteq> []" "CHR '':'' \<notin> set (hextetText x)"
    "parseInt (hextetText x) 16 = Num x"
  using hextetText_props(1,4) [OF assms] hextetText_no_colon [OF assms] by auto

lemma pushParts_groups:
  assumes "\<forall>x\<in>set xs. f x \<noteq> [] \<and> parseInt (f x) 16 = Num x \<and> x \<le> 0xffff"
  shows "pushParts (map f xs) hs = Some (hs @ map Num xs)"
  using assms
  by (induction xs arbitrary: hs) (simp_all add: Let_def isNaN_def numGreater_def)

lemma prefixMatch_no_slash: "CHR ''/'' \<notin> set s \<Longrightarrow> prefixMatch s = None"
  by (simp add: prefixMatch_def)

lemma ipv4MappedMatch_no_dot:
  assumes "CHR ''.'' \<notin> set s"
  shows "ipv4MappedMatch s = None"
proof -
  have "CHR ''.'' \<notin> set (drop 7 s)" using assms by (auto dest: in_set_dropD)
  then have "split_js ''.'' (drop 7 s) = [drop 7 s]"
    by (intro split_js_no_sep) simp_all
  then show ?thesis by (simp add: ipv4MappedMatch_def Let_def)
qed

lemma parseIPv6String_plain:
  assumes "CHR ''/'' \<notin> set s" "CHR ''.'' \<notin> set s"
  shows "parseIPv6String s =
           (if s = ''::'' then validParsed (replicate 8 (Num 0)) 128 else parseGroups s 128)"
  using prefixMatch_no_slash [OF assms(1)] ipv4MappedMatch_no_dot [OF assms(2)]
  by (simp add: parseIPv6String_def parseAddress_def)

lemma parseGroups_compressed:
  assumes xs: "\<forall>x\<in>set xs. 0 \<le> x \<and> x \<le> 0xffff"
    and ys: "\<forall>y\<in>set ys. 0 \<le> y \<and> y \<le> 0xffff"
    and le: "length xs + length ys \<le> 8"
  shows "parseGroups (join_js '':'' (map (toRadix 16) xs) @ ''::''
                        @ join_js '':'' (map (toRadix 16) ys)) p
         = validParsed (map Num xs @ replicate (8 - length xs - length ys) (Num 0) @ map Num ys) p"
proof -
  let ?gx = "map (toRadix 16) xs" and ?gy = "map (toRadix 16) ys"
  let ?A = "join_js '':'' ?gx" and ?B = "join_js '':'' ?gy"
  have gx: "\<forall>g\<in>set ?gx. g \<noteq> [] \<and> CHR '':'' \<notin> set g"
    using xs toRadix16_group(1,2) by auto
  have gy: "\<forall>g\<in>set ?gy. g \<noteq> [] \<and> CHR '':'' \<notin> set g"
    using ys toRadix16_group(1,2) by auto
  have parts: "[?A, ?B] = split_js ''::'' (?A @ ''::'' @ ?B)"
    using split_dc_join_then [OF gx, of "[]" ?B] split_dc_join [OF gy, of "[]"]
    by (simp add: split_js_def)
  have Ane: "?A = [] \<longleftrightarrow> xs = []"
    using join_js_empty_iff [of ?gx "'':''"] gx by simp
  have Bne: "?B = [] \<longleftrightarrow> ys = []"
    using join_js_empty_iff [of ?gy "'':''"] gy by simp
  have left: "split_js '':'' ?A = ?gx" if "xs \<noteq> []"
    using split_colon_join [of ?gx] gx that by simp
  have right: "split_js '':'' ?B = ?gy" if "ys \<noteq> []"
    using split_colon_join [of ?gy] gy that by simp
  have fx: "filter (\<lambda>p. p \<noteq> []) ?gx = ?gx" using gx by (simp add: filter_id_conv)
  have fy: "filter (\<lambda>p. p \<noteq> []) ?gy = ?gy" using gy by (simp add: filter_id_conv)
  have px: "pushParts ?gx hs = Some (hs @ map Num xs)" for hs
    using xs toRadix16_group by (intro pushParts_groups) simp
  have py: "pushParts ?gy hs = Some (hs @ map Num ys)" for hs
    using ys toRadix16_group by (intro pushParts_groups) simp
  have "parseGroups (?A @ ''::'' @ ?B) p =
     (if 2 < length [?A, ?B] then invalidParsed ''Multiple :: not allowed''
      else case pushParts ?gx [] of
             None \<Rightarrow> invalidParsed ''Invalid hexadecimal value''
           | Some hs1 \<Rightarrow>
               (case pushParts ?gy
                       (if length [?A, ?B] = 2
                        then hs1 @ replicate (nat (8 - int (length xs) - int (length ys))) (Num 0)
                        else hs1) of
                    None \<Rightarrow> invalidParsed ''Invalid hexadecimal value''
                  | Some hs3 \<Rightarrow>
                      if length hs3 \<noteq> 8 then invalidParsed ''Invalid IPv6 address format''
                      else validParsed hs3 p))"
    by (rule parseGroups_unfold [OF parts]) (auto simp: Ane Bne left right fx fy)
  moreover have "nat (8 - int (length xs) - int (length ys)) = 8 - length xs - length ys"
    using le by simp
  ultimately show ?thesis using le by (simp add: px py)
qed

lemma parseGroups_full:
  assumes f: "\<forall>x\<in>set w. f x \<noteq> [] \<and> CHR '':'' \<notin> set (f x)
                \<and> parseInt (f x) 16 = Num x \<and> x \<le> 0xffff"
    and len: "length w = 8"
  shows "parseGroups (join_js '':'' (map f w)) p = validParsed (map Num w) p"
proof -
  let ?g = "map f w"
  let ?J = "join_js '':'' ?g"
  have g: "\<forall>g\<in>set ?g. g \<noteq> [] \<and> CHR '':'' \<notin> set g" using f by auto
  have gne: "?g \<noteq> []" using len by auto
  have parts: "[?J] = split_js ''::'' ?J"
    using split_dc_join [OF g, of "[]"] by (simp add: split_js_def)
  have left: "split_js '':'' ?J = ?g"
    using split_colon_join [OF gne] g by simp
  have push: "pushParts ?g [] = Some (map Num w)"
    using pushParts_groups [of w f "[]"] f by simp
  have "parseGroups ?J p =
     (if 2 < length [?J] then invalidParsed ''Multiple :: not allowed''
      else case pushParts ?g [] of
             None \<Rightarrow> invalidParsed ''Invalid hexadecimal value''
           | Some hs1 \<Rightarrow>
               (case pushParts []
                       (if length [?J] = 2
                        then hs1 @ replicate (nat (8 - int (length (filter (\<lambda>p. p \<noteq> []) ?g))
                                                     - int (length (filter (\<lambda>p. p \<noteq> []) ([] :: string list))))) (Num 0)
                        else hs1) of
                    None \<Rightarrow> invalidParsed ''Invalid hexadecimal value''
                  | Some hs3 \<Rightarrow>
                      if length hs3 \<noteq> 8 then invalidParsed ''Invalid IPv6 address format''
                      else validParsed hs3 p))"
    by (rule parseGroups_unfold [OF parts]) (simp_all add: left)
  then show ?thesis by (simp add: push len)
qed

lemma zeroRun_decompose:
  assumes "zeroRun w s l"
  shows "w = take s w @ replicate l 0 @ drop (s + l) w"
proof -
  have b: "s + l \<le> length w" and z: "\<forall>k\<in>set [s..<s + l]. w ! k = 0"
    using assms by (simp_all add: zeroRun_def)
  have "take l (drop s w) = replicate l 0"
  proof (rule nth_equalityI)
    show "length (take l (drop s w)) = length (replicate l (0::int))" using b by simp
  next
    fix i assume "i < length (take l (drop s w))"
    then have i: "i < l" by simp
    then have "w ! (s + i) = 0" using z by simp
    then show "take l (drop s w) ! i = replicate l 0 ! i" using i b by simp
  qed
  moreover have "drop s w = take l (drop s w) @ drop (s + l) w"
    using append_take_drop_id [of l "drop s w"] by (simp add: add.commute)
  moreover have "w = take s w @ drop s w" by simp
  ultimately show ?thesis by metis
qed

lemma join_hex_chars:
  assumes "\<forall>g\<in>set gs. list_all isLowerHex g"
  shows "\<forall>ch\<in>set (join_js '':'' gs). ch = CHR '':'' \<or> isLowerHex ch"
proof
  fix ch assume "ch \<in> set (join_js '':'' gs)"
  with set_join_js [of "'':''" gs] have "ch \<in> set '':'' \<union> \<Union> (set ` set gs)" by blast
  then show "ch = CHR '':'' \<or> isLowerHex ch"
    using assms by (auto simp: list_all_iff)
qed

lemma address_chars:
  assumes "\<forall>ch\<in>set s. ch = CHR '':'' \<or> isLowerHex ch"
  shows "CHR ''/'' \<notin> set s" "CHR ''.'' \<notin> set s" "trim_js s = s"
proof -
  show "CHR ''/'' \<notin> set s"
  proof
    assume "CHR ''/'' \<in> set s"
    with assms have "CHR ''/'' = CHR '':'' \<or> isLowerHex (CHR ''/'')" by (rule bspec)
    then show False by (simp add: isLowerHex_def)
  qed
  show "CHR ''.'' \<notin> set s"
  proof
    assume "CHR ''.'' \<in> set s"
    with assms have "CHR ''.'' = CHR '':'' \<or> isLowerHex (CHR ''.'')" by (rule bspec)
    then show False by (simp add: isLowerHex_def)
  qed
  have c: "\<not> isStrWhiteSpace (CHR '':'')" by (simp add: isStrWhiteSpace_def)
  have nw: "\<not> isStrWhiteSpace ch" if "ch \<in> set s" for ch
  proof -
    from assms that have "ch = CHR '':'' \<or> isLowerHex ch" by (rule bspec)
    then show ?thesis
    proof
      assume "ch = CHR '':''" then show ?thesis using c by simp
    next
      assume "isLowerHex ch" then show ?thesis by (rule lowerHex_props(3))
    qed
  qed
  have dw: "dropWhile isStrWhiteSpace t = t" if "\<forall>ch\<in>set t. \<not> isStrWhiteSpace ch" for t
    using that by (cases t) simp_all
  have "dropWhile isStrWhiteSpace s = s" by (rule dw) (simp add: nw)
  moreover have "dropWhile isStrWhiteSpace (rev s) = rev s" by (rule dw) (simp add: nw)
  ultimately show "trim_js s = s" by (simp add: trim_js_def)
qed

lemma join_not_marker:
  assumes "length w = 8" "\<forall>x\<in>set w. list_all isLowerHex (f x) \<and> f x \<noteq> []"
  shows "join_js '':'' (map f w) \<noteq> ''::''"
proof -
  obtain x w' where w: "w = x # w'" using assms(1) by (cases w) auto
  have fx: "f x \<noteq> []" "list_all isLowerHex (f x)" using assms(2) w by simp_all
  then have "hd (f x) \<in> set (f x)" by simp
  with fx(2) have "isLowerHex (hd (f x))" by (simp add: list_all_iff)
  then have "hd (f x) \<noteq> CHR '':''" using lowerHex_props(2) by blast
  moreover have "hd (join_js '':'' (map f w)) = hd (f x)"
    using join_js_Cons_nonempty(2) [OF fx(1)] by (simp add: w)
  ultimately show ?thesis by auto
qed

lemma toCompressed_chars:
  assumes "word128 w"
  shows "\<forall>ch\<in>set (toCompressed (map Num w)). ch = CHR '':'' \<or> isLowerHex ch"
proof -
  note rng = word128D(2) [OF assms]
  have hexes: "\<forall>g\<in>set (map (toRadix 16) xs). list_all isLowerHex g" if "set xs \<subseteq> set w" for xs
    using that rng toRadix16_hex by auto
  from toCompressed_shape [OF assms] consider
    (run) s l where "toCompressed (map Num w) =
        join_js '':'' (map (toRadix 16) (take s w)) @ ''::''
          @ join_js '':'' (map (toRadix 16) (drop (s + l) w))"
    | (plain) "toCompressed (map Num w) = join_js '':'' (map (toRadix 16) w)"
    by blast
  then show ?thesis
  proof cases
    case run
    have "\<forall>ch\<in>set (join_js '':'' (map (toRadix 16) (take s w))). ch = CHR '':'' \<or> isLowerHex ch"
      by (intro join_hex_chars hexes) (rule set_take_subset)
    moreover
    have "\<forall>ch\<in>set (join_js '':'' (map (toRadix 16) (drop (s + l) w))). ch = CHR '':'' \<or> isLowerHex ch"
      by (intro join_hex_chars hexes) (rule set_drop_subset)
    ultimately show ?thesis unfolding run by auto
  next
    case plain
    show ?thesis unfolding plain by (intro join_hex_chars hexes) simp
  qed
qed

lemma roundtrip_compressed:
  assumes "word128 w"
  shows "parseIPv6String (toCompressed (map Num w)) = validParsed (map Num w) 128"
proof -
  note len = word128D(1) [OF assms] and rng = word128D(2) [OF assms]
  let ?str = "toCompressed (map Num w)"
  note ch = address_chars(1,2) [OF toCompressed_chars [OF assms]]
  have plain_eq: "parseIPv6String ?str =
           (if ?str = ''::'' then validParsed (replicate 8 (Num 0)) 128 else parseGroups ?str 128)"
    by (rule parseIPv6String_plain [OF ch])
  from toCompressed_shape [OF assms] consider
    (run) s l where "zeroRun w s l" "?str =
        join_js '':'' (map (toRadix 16) (take s w)) @ ''::''
          @ join_js '':'' (map (toRadix 16) (drop (s + l) w))"
    | (plain) "?str = join_js '':'' (map (toRadix 16) w)"
    by blast
  then show ?thesis
  proof cases
    case run
    let ?xs = "take s w" and ?ys = "drop (s + l) w"
    have b: "s + l \<le> 8" using run(1) len by (simp add: zeroRun_def)
    have dec: "w = ?xs @ replicate l 0 @ ?ys" by (rule zeroRun_decompose [OF run(1)])
    have "map Num w = map Num (?xs @ replicate l 0 @ ?ys)"
      using dec by (rule arg_cong)
    also have "\<dots> = map Num ?xs @ replicate l (Num 0) @ map Num ?ys" by simp
    finally have words: "map Num w = map Num ?xs @ replicate l (Num 0) @ map Num ?ys" .
    have xr: "\<forall>x\<in>set ?xs. 0 \<le> x \<and> x \<le> 0xffff" using rng by (auto dest: in_set_takeD)
    have yr: "\<forall>y\<in>set ?ys. 0 \<le> y \<and> y \<le> 0xffff" using rng by (auto dest: in_set_dropD)
    have lens: "length ?xs = s" "length ?ys = 8 - (s + l)" using b len by simp_all
    have gap: "8 - length ?xs - length ?ys = l" using b lens by simp
    have le: "length ?xs + length ?ys \<le> 8" using b lens by simp
    have "parseGroups (join_js '':'' (map (toRadix 16) ?xs) @ ''::''
                         @ join_js '':'' (map (toRadix 16) ?ys)) 128
            = validParsed (map Num ?xs @ replicate l (Num 0) @ map Num ?ys) 128"
      using parseGroups_compressed [OF xr yr le, of 128] by (simp only: gap)
    then have pg: "parseGroups ?str 128 = validParsed (map Num w) 128"
      by (simp only: run(2) [symmetric] words [symmetric])
    show ?thesis
    proof (cases "?str = ''::''")
      case False
      with plain_eq pg show ?thesis by simp
    next
      case True
      have gx: "\<forall>g\<in>set (map (toRadix 16) ?xs). g \<noteq> []" using xr toRadix16_group(1) by auto
      have gy: "\<forall>g\<in>set (map (toRadix 16) ?ys). g \<noteq> []" using yr toRadix16_group(1) by auto
      let ?A = "join_js '':'' (map (toRadix 16) ?xs)" and ?B = "join_js '':'' (map (toRadix 16) ?ys)"
      from True run(2) have "?A @ ''::'' @ ?B = ''::''" by (simp only:)
      then have "length (?A @ ''::'' @ ?B) = length ''::''" by (rule arg_cong)
      then have "?A = []" "?B = []" by simp_all
      then have "?xs = []" "?ys = []"
        using join_js_empty_iff [OF gx, of "'':''"] join_js_empty_iff [OF gy, of "'':''"] by simp_all
      with lens b len have "s = 0" "l = 8" by auto
      with words \<open>?xs = []\<close> \<open>?ys = []\<close> have "map Num w = replicate 8 (Num 0)" by simp
      with plain_eq True show ?thesis by simp
    qed
  next
    case plain
    have f: "\<forall>x\<in>set w. toRadix 16 x \<noteq> [] \<and> CHR '':'' \<notin> set (toRadix 16 x)
                \<and> parseInt (toRadix 16 x) 16 = Num x \<and> x \<le> 0xffff"
      using rng toRadix16_group by simp
    have "?str \<noteq> ''::''"
      unfolding plain using rng toRadix16_hex by (intro join_not_marker [OF len]) simp
    with plain_eq have "parseIPv6String ?str = parseGroups ?str 128" by simp
    also have "\<dots> = validParsed (map Num w) 128"
      unfolding plain by (rule parseGroups_full [OF f len])
    finally show ?thesis .
  qed
qed

lemma toExpanded_chars:
  assumes "word128 w"
  shows "\<forall>ch\<in>set (toExpanded (map Num w)). ch = CHR '':'' \<or> isLowerHex ch"
  unfolding toExpanded_parts(1) [OF assms]
  using word128D(2) [OF assms] hextetText_props(2) by (intro join_hex_chars) simp

lemma roundtrip_expanded:
  assumes "word128 w"
  shows "parseIPv6String (toExpanded (map Num w)) = validParsed (map Num w) 128"
proof -
  note len = word128D(1) [OF assms] and rng = word128D(2) [OF assms]
  let ?str = "toExpanded (map Num w)"
  note ch = address_chars(1,2) [OF toExpanded_chars [OF assms]]
  note e = toExpanded_parts(1) [OF assms]
  have f: "\<forall>x\<in>set w. hextetText x \<noteq> [] \<and> CHR '':'' \<notin> set (hextetText x)
                \<and> parseInt (hextetText x) 16 = Num x \<and> x \<le> 0xffff"
    using rng hextetText_group by simp
  have "?str \<noteq> ''::''"
    unfolding e using rng hextetText_props(2) hextetText_group(1)
    by (intro join_not_marker [OF len]) simp
  with parseIPv6String_plain [OF ch] have "parseIPv6String ?str = parseGroups ?str 128" by simp
  also have "\<dots> = validParsed (map Num w) 128"
    unfolding e by (rule parseGroups_full [OF f len])
  finally show ?thesis .
qed

lemma toIntegerLoop_Num: "\<exists>v. toIntegerLoop (map Num w) r = Inr v"
  by (induction w arbitrary: r) (simp_all add: BigInt_js_def)

lemma isEUI64_Num:
  assumes "length w = 8"
  shows "\<exists>b. isEUI64 (map Num w) = Inr b"
  using assms by (simp add: isEUI64_def js_nth_def BigInt_js_def Let_def)

lemma parse_of_valid:
  assumes "trim_js s = s" "parseIPv6String s = validParsed (map Num w) pl" "length w = 8"
  shows "isValid (parse h s) \<and> expanded (parse h s) = toExpanded (map Num w)
         \<and> compressed (parse h s) = toCompressed (map Num w) \<and> prefixLength (parse h s) = pl"
proof -
  obtain v where v: "toIntegerLoop (map Num w) 0 = Inr v" using toIntegerLoop_Num by blast
  obtain b where b: "isEUI64 (map Num w) = Inr b" using isEUI64_Num [OF assms(3)] by blast
  have i: "toInteger (map Num w) = Inr (decString v)" by (simp add: toInteger_def v)
  have "\<exists>r. parseBody h s = Inr r \<and> isValid r \<and> expanded r = toExpanded (map Num w)
            \<and> compressed r = toCompressed (map Num w) \<and> prefixLength r = pl"
    unfolding parseBody_def by (simp add: assms(2) Let_def i b)
  then show ?thesis by (auto simp: parse_def assms(1))
qed

lemma toRadix16_zero: "toRadix 16 0 = ''0''"
  by (simp add: toRadix.simps [of 16 0] digitChar_def char_of_eq_iff)

lemma digitChar_nonzero:
  assumes "0 < d" "d < 16"
  shows "digitChar d \<noteq> CHR ''0''"
  using small_int_cases [of d] assms by (auto simp: digitChar_def char_of_eq_iff)

lemma toRadix16_no_leading_zero: "0 < n \<Longrightarrow> hd (toRadix 16 n) \<noteq> CHR ''0''"
proof (induction "16 :: int" n rule: toRadix.induct)
  case (1 n)
  show ?case
  proof (cases "n < 16")
    case True
    with 1(2) show ?thesis by (simp add: toRadix.simps [of 16 n] digitChar_nonzero)
  next
    case False
    then have pos: "0 < n div 16" by simp
    with 1(1) False have "hd (toRadix 16 (n div 16)) \<noteq> CHR ''0''" by simp
    moreover have "toRadix 16 (n div 16) \<noteq> []" using toRadix16_hex [of "n div 16"] pos by simp
    ultimately show ?thesis using False by (simp add: toRadix.simps [of 16 n])
  qed
qed

lemma hex_rendering:
  assumes "0 \<le> x" "x \<le> 0xffff"
  shows "list_all isLowerHex (toRadix 16 x) \<and> digitsValue 16 (toRadix 16 x) = x
         \<and> (if x = 0 then toRadix 16 x = ''0'' else hd (toRadix 16 x) \<noteq> CHR ''0'')"
  using assms toRadix16_hex [of x] digitsValue_toRadix16 [of x] toRadix16_zero
    toRadix16_no_leading_zero [of x]
  by auto

lemma toCompressed_all_zero: "toCompressed (replicate 8 (Num 0)) = ''::''"
  by code_simp

text \<open>
  Claim C3. For every Word128 \<open>w\<close>, the parser applied to the compressed rendering of
  \<open>w\<close>, and to its expanded rendering, returns a valid result whose words are \<open>w\<close>
  (with the default prefix length 128); \<open>parse\<close> on either rendering returns a valid
  record whose expanded form is that of \<open>w\<close>.
\<close>

theorem parse_roundtrip:
  assumes "word128 w"
  shows "parseIPv6String (toCompressed (map Num w)) = validParsed (map Num w) 128
       \<and> parseIPv6String (toExpanded (map Num w)) = validParsed (map Num w) 128
       \<and> isValid (parse h (toCompressed (map Num w)))
       \<and> expanded (parse h (toCompressed (map Num w))) = toExpanded (map Num w)
       \<and> isValid (parse h (toExpanded (map Num w)))
       \<and> expanded (parse h (toExpanded (map Num w))) = toExpanded (map Num w)"
proof -
  note len = word128D(1) [OF assms]
  note c = roundtrip_compressed [OF assms] and e = roundtrip_expanded [OF assms]
  note tc = address_chars(3) [OF toCompressed_chars [OF assms]]
  note te = address_chars(3) [OF toExpanded_chars [OF assms]]
  from parse_of_valid [OF tc c len, of h] parse_of_valid [OF te e len, of h] c e
  show ?thesis by simp
qed

text \<open>The hypothesis of C3 holds for \<open>2001:db8:0:0:1:0:0:1\<close>.\<close>

theorem parse_roundtrip_witness:
  "word128 [0x2001, 0xdb8, 0, 0, 1, 0, 0, 1]
   \<and> toCompressed (map Num [0x2001, 0xdb8, 0, 0, 1, 0, 0, 1]) = ''2001:db8::1:0:0:1''
   \<and> parseIPv6String ''2001:db8::1:0:0:1''
       = validParsed (map Num [0x2001, 0xdb8, 0, 0, 1, 0, 0, 1]) 128
   \<and> isValid (parse hostEnUS ''2001:db8::1:0:0:1'')"
proof -
  have h: "word128 [0x2001, 0xdb8, 0, 0, 1, 0, 0, 1]" by (simp add: word128_def)
  have c: "toCompressed (map Num [0x2001, 0xdb8, 0, 0, 1, 0, 0, 1]) = ''2001:db8::1:0:0:1''"
    by code_simp
  from parse_roundtrip [OF h, of hostEnUS] h c show ?thesis by (simp only: c)
qed

text \<open>
  Claim C4. For every Word128 \<open>w\<close>: either some maximal run of zero words has length
  at least 2, and the compressed rendering is the words before the chosen run, \<open>::\<close>,
  and the words after it, where the chosen run is a maximal run of length at least 2, no
  maximal run is longer and none of the same length starts further left; or every maximal
  run has length 1 and the rendering is all eight words, none compressed. A word is
  rendered by \<open>toRadix 16\<close>: lowercase hexadecimal digits of the word's value, the single
  digit \<open>0\<close> for zero and no leading \<open>0\<close> otherwise. The all-zero address renders as
  \<open>::\<close>.
\<close>

theorem toCompressed_rfc5952:
  assumes "word128 w"
  shows "((\<exists>s l. zeroRun w s l \<and> 2 \<le> l
             \<and> (\<forall>s' l'. zeroRun w s' l' \<longrightarrow> l' < l \<or> (l' = l \<and> s \<le> s'))
             \<and> toCompressed (map Num w) =
                 join_js '':'' (map (toRadix 16) (take s w)) @ ''::''
                   @ join_js '':'' (map (toRadix 16) (drop (s + l) w)))
          \<or> ((\<forall>s l. zeroRun w s l \<longrightarrow> l = 1)
             \<and> toCompressed (map Num w) = join_js '':'' (map (toRadix 16) w)))
       \<and> (\<forall>x\<in>set w. list_all isLowerHex (toRadix 16 x) \<and> digitsValue 16 (toRadix 16 x) = x
             \<and> (if x = 0 then toRadix 16 x = ''0'' else hd (toRadix 16 x) \<noteq> CHR ''0''))
       \<and> toCompressed (replicate 8 (Num 0)) = ''::''"
  using toCompressed_shape [OF assms] word128D(2) [OF assms] hex_rendering toCompressed_all_zero
  by (intro conjI ballI) simp_all

text \<open>
  The hypothesis of C4 holds for \<open>2001:db8:0:0:1:0:0:1\<close>, which has two runs of two
  zero words; the left one is compressed.
\<close>

theorem toCompressed_rfc5952_witness:
  "word128 [0x2001, 0xdb8, 0, 0, 1, 0, 0, 1]
   \<and> toCompressed (map Num [0x2001, 0xdb8, 0, 0, 1, 0, 0, 1]) = ''2001:db8::1:0:0:1''
   \<and> toCompressed (replicate 8 (Num 0)) = ''::''"
proof -
  have h: "word128 [0x2001, 0xdb8, 0, 0, 1, 0, 0, 1]" by (simp add: word128_def)
  have c: "toCompressed (map Num [0x2001, 0xdb8, 0, 0, 1, 0, 0, 1]) = ''2001:db8::1:0:0:1''"
    by code_simp
  note z = conjunct2 [OF conjunct2 [OF toCompressed_rfc5952 [OF h]]]
  show ?thesis by (intro conjI) (rule h c z)+
qed

section \<open>The bitwise operators on small operands\<close>













section \<open>The bits of an address value\<close>















section \<open>The loop of calculateSubnetAddress\<close>








section \<open>The numeric value of a network\<close>












section \<open>The prefix length of a valid record\<close>






section \<open>The plan\<close>







end
